theory Spec2Isabelle
  imports Complex_Main "HOL-Library.AList" "HOL-Library.Log_Nat"
begin

section \<open>JavaScript values\<close>

text \<open>
  The trainer is one script, \<^verbatim>\<open>app.js\<close>. Its state is a handful of module-level
  variables and two entries of the browser's \<^verbatim>\<open>localStorage\<close>. The values it moves
  between the two are the results of \<^verbatim>\<open>JSON.parse\<close>, so they are modelled by one
  datatype of JavaScript values. \<open>JUndefined\<close> is \<^verbatim>\<open>undefined\<close>; \<open>JHole\<close> is the
  empty slot an array gets when an index beyond its length is assigned. The numbers in
  these values are integers (counters and indices are all the script stores; integers are
  exact in a JavaScript number below \<open>2 ^ 53\<close>). The one number that is not an integer,
  the result of \<^verbatim>\<open>Math.random()\<close>, is a double; doubles are modelled below.
\<close>

datatype jsval =
    JUndefined
  | JHole
  | JNull
  | JBool bool
  | JNum int
  | JStr string
  | JArr "jsval list"
  | JObj "(string \<times> jsval) list"

text \<open>What \<^verbatim>\<open>if (v)\<close>, \<^verbatim>\<open>!v\<close>, \<^verbatim>\<open>v ? a : b\<close> and \<^verbatim>\<open>Boolean(v)\<close> test.\<close>

fun truthy :: "jsval \<Rightarrow> bool" where
  "truthy JUndefined = False"
| "truthy JHole = False"
| "truthy JNull = False"
| "truthy (JBool b) = b"
| "truthy (JNum n) = (n \<noteq> 0)"
| "truthy (JStr s) = (s \<noteq> [])"
| "truthy (JArr xs) = True"
| "truthy (JObj kvs) = True"

text \<open>
  \<^verbatim>\<open>xs[i]\<close> on an array: \<^verbatim>\<open>undefined\<close> (here \<open>None\<close>) outside \<open>0 .. length - 1\<close>.
\<close>

definition js_index :: "'a list \<Rightarrow> int \<Rightarrow> 'a option" where
  "js_index xs i = (if 0 \<le> i \<and> i < int (length xs) then Some (xs ! nat i) else None)"

text \<open>The remainder \<^verbatim>\<open>a % b\<close> takes the sign of \<open>a\<close>.\<close>

definition js_rem :: "int \<Rightarrow> int \<Rightarrow> int" where
  "js_rem a b = (if 0 \<le> a then a mod \<bar>b\<bar> else - ((- a) mod \<bar>b\<bar>))"

subsection \<open>Doubles\<close>

text \<open>
  A JavaScript number is an IEEE 754 double. A double that is not negative is a whole
  number of units of \<^verbatim>\<open>2^-1074\<close>, the smallest positive double, with at most 53
  significant bits. The product of two doubles is the exact product rounded to the nearest
  double, a tie going to the double whose last bit is 0. (A product beyond the largest
  double would be \<^verbatim>\<open>Infinity\<close>; the products taken here are below an array length.)
\<close>

definition unit_exp :: nat where
  "unit_exp = 1074"

text \<open>\<open>N / 2 ^ s\<close> rounded to the nearest integer, a tie to the even one.\<close>

definition half_even :: "int \<Rightarrow> nat \<Rightarrow> int" where
  "half_even N s =
     (let q = N div 2 ^ s; rest = 2 * (N mod 2 ^ s)
      in if rest < 2 ^ s then q else if 2 ^ s < rest then q + 1 else if even q then q else q + 1)"

text \<open>
  The double nearest to \<open>N\<close> units, in units: \<open>N\<close> itself when it has at most 53 bits,
  else \<open>N\<close> rounded to a multiple of the value of its 53rd bit from the top.
\<close>

definition round_units :: "int \<Rightarrow> int" where
  "round_units N = half_even N (nat (bitlen N - 53)) * 2 ^ nat (bitlen N - 53)"

definition nonneg_double :: "real \<Rightarrow> bool" where
  "nonneg_double r =
     (0 \<le> r \<and> of_int \<lfloor>r * 2 ^ unit_exp\<rfloor> = r * 2 ^ unit_exp
      \<and> round_units \<lfloor>r * 2 ^ unit_exp\<rfloor> = \<lfloor>r * 2 ^ unit_exp\<rfloor>)"

text \<open>
  \<^verbatim>\<open>Math.floor(r * n)\<close> for a double \<open>r\<close> that is not negative and a length \<open>n\<close>: the
  exact product is \<open>\<lfloor>r * 2 ^ unit_exp\<rfloor> * n\<close> units; it is rounded, and the whole units
  of 1 in the result are counted.
\<close>

definition js_floor_mul :: "real \<Rightarrow> nat \<Rightarrow> int" where
  "js_floor_mul r n = round_units (\<lfloor>r * 2 ^ unit_exp\<rfloor> * int n) div 2 ^ unit_exp"

section \<open>Note data and the pitch model\<close>

definition NOTES :: "string list" where
  "NOTES = [''C'', ''C#'', ''D'', ''D#'', ''E'', ''F'', ''F#'', ''G'', ''G#'', ''A'', ''A#'', ''B'']"

definition NOTE_DISPLAY :: "string list" where
  "NOTE_DISPLAY =
     [''A'', ''A#/Bb'', ''B'', ''C'', ''C#/Db'', ''D'', ''D#/Eb'', ''E'', ''F'', ''F#/Gb'', ''G'',
      ''G#/Ab'']"

text \<open>High E first: index 0 is the high E string, index 5 the low E string.\<close>

definition STRING_NOTES :: "string list" where
  "STRING_NOTES = [''E'', ''B'', ''G'', ''D'', ''A'', ''E'']"

definition STRING_START_INDICES :: "int list" where
  "STRING_START_INDICES = [4, 11, 7, 2, 9, 4]"

definition FRET_COUNT :: nat where
  "FRET_COUNT = 13"

text \<open>
  \<^verbatim>\<open>getNoteAtPosition(stringIndex, fret)\<close>. Either argument can be \<^verbatim>\<open>undefined\<close>
  (\<open>None\<close>): then the sum is \<^verbatim>\<open>NaN\<close> and \<^verbatim>\<open>NOTES[NaN]\<close> is \<^verbatim>\<open>undefined\<close>.
\<close>

definition getNoteAtPosition :: "int option \<Rightarrow> int option \<Rightarrow> string option" where
  "getNoteAtPosition stringIndex fret =
     (case stringIndex of
        None \<Rightarrow> None
      | Some s \<Rightarrow>
          (case js_index STRING_START_INDICES s of
             None \<Rightarrow> None
           | Some startIndex \<Rightarrow>
               (case fret of
                  None \<Rightarrow> None
                | Some f \<Rightarrow> js_index NOTES (js_rem (startIndex + f) 12))))"

definition displayMap :: "(string \<times> string) list" where
  "displayMap =
     [(''C'', ''C''), (''C#'', ''C#/Db''), (''D'', ''D''), (''D#'', ''D#/Eb''),
      (''E'', ''E''), (''F'', ''F''), (''F#'', ''F#/Gb''), (''G'', ''G''),
      (''G#'', ''G#/Ab''), (''A'', ''A''), (''A#'', ''A#/Bb''), (''B'', ''B'')]"

text \<open>
  \<^verbatim>\<open>getNoteDisplayName(note)\<close> is \<^verbatim>\<open>displayMap[note]\<close>; for \<^verbatim>\<open>undefined\<close> the key
  read is \<^verbatim>\<open>"undefined"\<close>, which the table does not have.
\<close>

definition getNoteDisplayName :: "string option \<Rightarrow> string option" where
  "getNoteDisplayName note = (case note of None \<Rightarrow> None | Some n \<Rightarrow> map_of displayMap n)"

section \<open>Storage\<close>

text \<open>
  \<^verbatim>\<open>localStorage\<close> holds strings. All the script does with a string it reads is test it
  (\<^verbatim>\<open>if (stored)\<close>) and hand it to \<^verbatim>\<open>JSON.parse\<close>, so a stored text is modelled by
  what those two do with it: the empty string (falsy, and not JSON), a non-empty text that
  \<^verbatim>\<open>JSON.parse\<close> rejects, or a text that \<^verbatim>\<open>JSON.parse\<close> turns into a value.
\<close>

datatype stored_text = EmptyText | Malformed | Encodes jsval

datatype js_error = SyntaxError | TypeError | QuotaExceededError

record storage =
  items :: "string \<Rightarrow> stored_text option"
  quota_exceeded :: bool

definition getItem :: "storage \<Rightarrow> string \<Rightarrow> stored_text option" where
  "getItem ls k = items ls k"

text \<open>\<^verbatim>\<open>setItem\<close> throws when the browser refuses the write.\<close>

definition setItem :: "storage \<Rightarrow> string \<Rightarrow> stored_text \<Rightarrow> js_error + storage" where
  "setItem ls k v =
     (if quota_exceeded ls then Inl QuotaExceededError
      else Inr (ls\<lparr>items := (items ls)(k \<mapsto> v)\<rparr>))"

definition removeItem :: "storage \<Rightarrow> string \<Rightarrow> storage" where
  "removeItem ls k = ls\<lparr>items := (items ls)(k := None)\<rparr>"

fun JSON_parse :: "stored_text \<Rightarrow> js_error + jsval" where
  "JSON_parse EmptyText = Inl SyntaxError"
| "JSON_parse Malformed = Inl SyntaxError"
| "JSON_parse (Encodes v) = Inr v"

text \<open>
  \<^verbatim>\<open>JSON.stringify\<close> writes \<^verbatim>\<open>null\<close> for an array slot that is empty or
  \<^verbatim>\<open>undefined\<close> and leaves out an object property that is \<^verbatim>\<open>undefined\<close>;
  \<open>json_of v\<close> is the value the text written for \<open>v\<close> parses to.
\<close>

fun json_of :: "jsval \<Rightarrow> jsval" where
  "json_of (JArr xs) =
     JArr (map (\<lambda>v. if v = JUndefined \<or> v = JHole then JNull else json_of v) xs)"
| "json_of (JObj kvs) =
     JObj (map (\<lambda>kv. (fst kv, json_of (snd kv)))
             (filter (\<lambda>kv. snd kv \<noteq> JUndefined \<and> snd kv \<noteq> JHole) kvs))"
| "json_of v = v"

definition JSON_stringify :: "jsval \<Rightarrow> stored_text" where
  "JSON_stringify v = Encodes (json_of v)"

definition STORAGE_KEY :: string where
  "STORAGE_KEY = ''fretboard-trainer-stats''"

definition SETTINGS_KEY :: string where
  "SETTINGS_KEY = ''fretboard-trainer-settings''"

text \<open>A storage holding the given texts under the given keys, with room to write.\<close>

definition storage_of :: "(string \<times> stored_text) list \<Rightarrow> storage" where
  "storage_of kvs = \<lparr>items = map_of kvs, quota_exceeded = False\<rparr>"

section \<open>Settings\<close>

record settings =
  frets :: "jsval list"
  strings :: "jsval list"

definition default_settings :: settings where
  "default_settings =
     \<lparr>frets = [JBool True, JBool True, JBool True, JBool True, JBool True, JBool True, JBool True,
               JBool True, JBool True, JBool True, JBool True, JBool True, JBool True],
      strings = [JBool True, JBool True, JBool True, JBool True, JBool True, JBool True]\<rparr>"

text \<open>
  \<^verbatim>\<open>loadSettings\<close>: the body of its \<^verbatim>\<open>try\<close> block first. Reading a property of
  \<^verbatim>\<open>null\<close> throws; a number, a string, a boolean or an array has no \<^verbatim>\<open>frets\<close> or
  \<^verbatim>\<open>strings\<close> property. A field is taken when it is an array of the right length;
  its entries are not looked at.
\<close>

definition take_array :: "(string \<times> jsval) list \<Rightarrow> string \<Rightarrow> nat \<Rightarrow> jsval list \<Rightarrow> jsval list" where
  "take_array kvs k n old =
     (case map_of kvs k of
        Some (JArr xs) \<Rightarrow> if length xs = n then xs else old
      | _ \<Rightarrow> old)"

definition loadSettings_try :: "storage \<Rightarrow> settings \<Rightarrow> js_error + settings" where
  "loadSettings_try ls s =
     (case getItem ls SETTINGS_KEY of
        None \<Rightarrow> Inr s
      | Some stored \<Rightarrow>
          if stored = EmptyText then Inr s
          else
            (case JSON_parse stored of
               Inl e \<Rightarrow> Inl e
             | Inr parsed \<Rightarrow>
                 (case parsed of
                    JObj kvs \<Rightarrow>
                      Inr \<lparr>frets = take_array kvs ''frets'' 13 (frets s),
                           strings = take_array kvs ''strings'' 6 (strings s)\<rparr>
                  | JNull \<Rightarrow> Inl TypeError
                  | JUndefined \<Rightarrow> Inl TypeError
                  | _ \<Rightarrow> Inr s)))"

definition loadSettings :: "storage \<Rightarrow> settings \<Rightarrow> settings" where
  "loadSettings ls s = (case loadSettings_try ls s of Inl e \<Rightarrow> s | Inr s' \<Rightarrow> s')"

definition saveSettings :: "storage \<Rightarrow> settings \<Rightarrow> storage" where
  "saveSettings ls s =
     (case setItem ls SETTINGS_KEY
             (JSON_stringify (JObj [(''frets'', JArr (frets s)), (''strings'', JArr (strings s))])) of
        Inl e \<Rightarrow> ls
      | Inr ls' \<Rightarrow> ls')"

section \<open>Statistics\<close>

text \<open>
  The statistics object, as \<^verbatim>\<open>createEmptyStats\<close> builds it and \<^verbatim>\<open>handleGuess\<close>
  updates it: two counters and two objects of \<^verbatim>\<open>{ correct, total }\<close> entries, keyed by
  display note and by fret. Object keys are strings and are kept in the order they were
  added.
\<close>

record counter =
  n_correct :: int
  n_total :: int

record stats =
  totalCorrect :: int
  totalAttempts :: int
  noteStats :: "(string \<times> counter) list"
  fretStats :: "(string \<times> counter) list"

definition zero_counter :: counter where
  "zero_counter = \<lparr>n_correct = 0, n_total = 0\<rparr>"

text \<open>The property key a number is turned into when it indexes an object.\<close>

fun digits :: "nat \<Rightarrow> string" where
  "digits n =
     (if n < 10 then [''0123456789'' ! n] else digits (n div 10) @ [''0123456789'' ! (n mod 10)])"

declare digits.simps [simp del]

definition key_of_int :: "int \<Rightarrow> string" where
  "key_of_int i = (if i < 0 then CHR ''-'' # digits (nat (- i)) else digits (nat i))"

text \<open>\<^verbatim>\<open>obj[k]\<close> with \<open>k\<close> \<^verbatim>\<open>undefined\<close> reads the key \<^verbatim>\<open>"undefined"\<close>.\<close>

definition note_key :: "string option \<Rightarrow> string" where
  "note_key note = (case note of None \<Rightarrow> ''undefined'' | Some n \<Rightarrow> n)"

definition fret_key :: "int option \<Rightarrow> string" where
  "fret_key fret = (case fret of None \<Rightarrow> ''undefined'' | Some i \<Rightarrow> key_of_int i)"

definition createEmptyStats :: stats where
  "createEmptyStats =
     \<lparr>totalCorrect = 0, totalAttempts = 0,
      noteStats = map (\<lambda>note. (note, zero_counter)) NOTE_DISPLAY,
      fretStats = map (\<lambda>i. (key_of_int (int i), zero_counter)) [0 ..< FRET_COUNT]\<rparr>"

subsection \<open>The statistics object as a JavaScript value\<close>

definition js_of_counter :: "counter \<Rightarrow> jsval" where
  "js_of_counter c = JObj [(''correct'', JNum (n_correct c)), (''total'', JNum (n_total c))]"

definition js_of_entries :: "(string \<times> counter) list \<Rightarrow> jsval" where
  "js_of_entries es = JObj (map (\<lambda>e. (fst e, js_of_counter (snd e))) es)"

definition js_of_stats :: "stats \<Rightarrow> jsval" where
  "js_of_stats s =
     JObj [(''totalCorrect'', JNum (totalCorrect s)), (''totalAttempts'', JNum (totalAttempts s)),
           (''noteStats'', js_of_entries (noteStats s)), (''fretStats'', js_of_entries (fretStats s))]"

text \<open>
  The other direction reads a JavaScript value as a statistics object when it has exactly
  the shape above, the one every value written by \<^verbatim>\<open>saveStats\<close> has.
\<close>

definition counter_of_js :: "jsval \<Rightarrow> counter option" where
  "counter_of_js v =
     (case v of
        JObj [(k1, JNum c), (k2, JNum t)] \<Rightarrow>
          if k1 = ''correct'' \<and> k2 = ''total'' then Some \<lparr>n_correct = c, n_total = t\<rparr> else None
      | _ \<Rightarrow> None)"

primrec entries_of_js :: "(string \<times> jsval) list \<Rightarrow> (string \<times> counter) list option" where
  "entries_of_js [] = Some []"
| "entries_of_js (kv # kvs) =
     (case counter_of_js (snd kv) of
        None \<Rightarrow> None
      | Some c \<Rightarrow>
          (case entries_of_js kvs of
             None \<Rightarrow> None
           | Some es \<Rightarrow> Some ((fst kv, c) # es)))"

definition stats_of_js :: "jsval \<Rightarrow> stats option" where
  "stats_of_js v =
     (case v of
        JObj [(k1, JNum tc), (k2, JNum ta), (k3, JObj ns), (k4, JObj fs)] \<Rightarrow>
          if k1 = ''totalCorrect'' \<and> k2 = ''totalAttempts'' \<and> k3 = ''noteStats'' \<and> k4 = ''fretStats''
          then
            (case entries_of_js ns of
               None \<Rightarrow> None
             | Some nes \<Rightarrow>
                 (case entries_of_js fs of
                    None \<Rightarrow> None
                  | Some fes \<Rightarrow>
                      Some \<lparr>totalCorrect = tc, totalAttempts = ta, noteStats = nes, fretStats = fes\<rparr>))
          else None
      | _ \<Rightarrow> None)"

subsection \<open>Loading and saving\<close>

text \<open>
  \<^verbatim>\<open>loadStats\<close>: the \<^verbatim>\<open>try\<close> block returns the parsed value, falls through (\<open>None\<close>)
  when nothing non-empty is stored, or throws; in the last two cases the function returns
  \<^verbatim>\<open>createEmptyStats()\<close>.
\<close>

definition loadStats_try :: "storage \<Rightarrow> js_error + jsval option" where
  "loadStats_try ls =
     (case getItem ls STORAGE_KEY of
        None \<Rightarrow> Inr None
      | Some stored \<Rightarrow>
          if stored = EmptyText then Inr None
          else (case JSON_parse stored of Inl e \<Rightarrow> Inl e | Inr v \<Rightarrow> Inr (Some v)))"

definition loadStats :: "storage \<Rightarrow> jsval" where
  "loadStats ls =
     (case loadStats_try ls of
        Inr (Some v) \<Rightarrow> v
      | _ \<Rightarrow> js_of_stats createEmptyStats)"

definition saveStats :: "storage \<Rightarrow> stats \<Rightarrow> storage" where
  "saveStats ls s =
     (case setItem ls STORAGE_KEY (JSON_stringify (js_of_stats s)) of
        Inl e \<Rightarrow> ls
      | Inr ls' \<Rightarrow> ls')"

subsection \<open>Recording an attempt\<close>

text \<open>
  The three updates \<^verbatim>\<open>handleGuess\<close> makes to the loaded object. For the per-note and the
  per-fret entry: create \<^verbatim>\<open>{ correct: 0, total: 0 }\<close> under the key if there is none,
  add one to \<^verbatim>\<open>total\<close>, and one to \<^verbatim>\<open>correct\<close> on a correct guess.
\<close>

definition bump :: "bool \<Rightarrow> string \<Rightarrow> (string \<times> counter) list \<Rightarrow> (string \<times> counter) list" where
  "bump isCorrect k es =
     (let c = (case map_of es k of None \<Rightarrow> zero_counter | Some c \<Rightarrow> c);
          c1 = c\<lparr>n_total := n_total c + 1\<rparr>;
          c2 = (if isCorrect then c1\<lparr>n_correct := n_correct c1 + 1\<rparr> else c1)
      in AList.update k c2 es)"

definition recordAttempt :: "stats \<Rightarrow> string option \<Rightarrow> int option \<Rightarrow> bool \<Rightarrow> stats" where
  "recordAttempt s note fret isCorrect =
     \<lparr>totalCorrect = (if isCorrect then totalCorrect s + 1 else totalCorrect s),
      totalAttempts = totalAttempts s + 1,
      noteStats = bump isCorrect (note_key note) (noteStats s),
      fretStats = bump isCorrect (fret_key fret) (fretStats s)\<rparr>"

text \<open>
  A sequence of attempts, each with the note, the fret and the outcome it is recorded
  with; the sum of the totals of all entries of an object; and an entry read with
  \<open>{0, 0}\<close> for a key that is not there (what \<^verbatim>\<open>renderStats\<close> shows for it).
\<close>

fun recordAttempts :: "stats \<Rightarrow> (string option \<times> int option \<times> bool) list \<Rightarrow> stats" where
  "recordAttempts s [] = s"
| "recordAttempts s ((note, fret, isCorrect) # as) =
     recordAttempts (recordAttempt s note fret isCorrect) as"

definition sum_totals :: "(string \<times> counter) list \<Rightarrow> int" where
  "sum_totals es = sum_list (map (\<lambda>e. n_total (snd e)) es)"

definition entry :: "(string \<times> counter) list \<Rightarrow> string \<Rightarrow> counter" where
  "entry es k = (case map_of es k of None \<Rightarrow> zero_counter | Some c \<Rightarrow> c)"

section \<open>The round state\<close>

record position =
  pos_string :: "int option"
  pos_fret :: "int option"

text \<open>
  The module-level variables, the two things of the browser the handlers read and write
  (\<^verbatim>\<open>localStorage\<close>, and the timeouts that are pending, each with its id and its delay),
  and whether the Next button carries the class \<^verbatim>\<open>hidden\<close>, which the keyboard handler
  tests. \<open>timer_seq\<close> is the last timeout id the browser handed out: ids are positive and
  never reused. The Next button is taken to be hidden when the script starts;
  \<^verbatim>\<open>newPosition\<close>, which \<^verbatim>\<open>init\<close> runs, hides it in any case.
\<close>

record state =
  currentPosition :: position
  correctNote :: "string option"
  hasAnswered :: bool
  sessionCorrect :: int
  sessionTotal :: int
  autoAdvanceTimeout :: "nat option"
  settings :: settings
  localStorage :: storage
  timeouts :: "(nat \<times> nat) list"
  timer_seq :: nat
  nextBtn_hidden :: bool

definition initial_state :: "storage \<Rightarrow> state" where
  "initial_state ls =
     \<lparr>currentPosition = \<lparr>pos_string = Some 0, pos_fret = Some 0\<rparr>,
      correctNote = Some [],
      hasAnswered = False,
      sessionCorrect = 0,
      sessionTotal = 0,
      autoAdvanceTimeout = None,
      settings = default_settings,
      localStorage = ls,
      timeouts = [],
      timer_seq = 0,
      nextBtn_hidden = True\<rparr>"

definition clearTimeout :: "nat \<Rightarrow> (nat \<times> nat) list \<Rightarrow> (nat \<times> nat) list" where
  "clearTimeout t ts = filter (\<lambda>p. fst p \<noteq> t) ts"

section \<open>Starting a round\<close>

text \<open>
  The indices of the enabled entries:
  \<^verbatim>\<open>xs.map((enabled, i) => enabled ? i : -1).filter(i => i >= 0)\<close>. \<^verbatim>\<open>map\<close> does not
  call its function on an empty slot and \<^verbatim>\<open>filter\<close> drops the slot.
\<close>

definition valid_indices :: "jsval list \<Rightarrow> int list" where
  "valid_indices xs =
     filter (\<lambda>i. 0 \<le> i)
       (map (\<lambda>p. if truthy (snd p) then int (fst p) else - 1)
          (filter (\<lambda>p. snd p \<noteq> JHole) (enumerate 0 xs)))"

text \<open>
  \<^verbatim>\<open>valid[Math.floor(Math.random() * valid.length)]\<close>, for the double \<open>r\<close> that
  \<^verbatim>\<open>Math.random()\<close> returned (\<open>0 \<le> r < 1\<close>). On an empty array the index is 0 and the
  read gives \<^verbatim>\<open>undefined\<close>.
\<close>

definition random_pick :: "real \<Rightarrow> int list \<Rightarrow> int option" where
  "random_pick r valid = js_index valid (js_floor_mul r (length valid))"

text \<open>
  \<^verbatim>\<open>newPosition\<close>; \<open>rs\<close> and \<open>rf\<close> are the two numbers drawn, for the string first and
  then for the fret.
\<close>

definition newPosition :: "real \<Rightarrow> real \<Rightarrow> state \<Rightarrow> state" where
  "newPosition rs rf st =
     (let st1 =
            (case autoAdvanceTimeout st of
               None \<Rightarrow> st
             | Some t \<Rightarrow>
                 if t \<noteq> 0
                 then st\<lparr>timeouts := clearTimeout t (timeouts st), autoAdvanceTimeout := None\<rparr>
                 else st);
          validFrets = valid_indices (frets (settings st1));
          validStrings = valid_indices (strings (settings st1));
          pos = \<lparr>pos_string = random_pick rs validStrings, pos_fret = random_pick rf validFrets\<rparr>
      in st1\<lparr>currentPosition := pos,
              correctNote := getNoteDisplayName (getNoteAtPosition (pos_string pos) (pos_fret pos)),
              hasAnswered := False,
              nextBtn_hidden := True\<rparr>)"

section \<open>Handling a guess\<close>

text \<open>\<^verbatim>\<open>setTimeout(newPosition, 800)\<close>: a new pending timeout; its id is the result.\<close>

definition setTimeout_800 :: "state \<Rightarrow> state" where
  "setTimeout_800 st =
     (let t = Suc (timer_seq st)
      in st\<lparr>timeouts := timeouts st @ [(t, 800)], timer_seq := t, autoAdvanceTimeout := Some t\<rparr>)"

text \<open>
  \<^verbatim>\<open>handleGuess(note)\<close>. The result is \<open>None\<close> when the value \<^verbatim>\<open>loadStats()\<close> returns is
  not a statistics object of the shape \<^verbatim>\<open>saveStats\<close> writes: the script then throws a
  \<^verbatim>\<open>TypeError\<close> at the first read through a missing field or goes on with coerced
  values, and this development does not follow it there.
\<close>

definition handleGuess :: "string \<Rightarrow> state \<Rightarrow> state option" where
  "handleGuess note st =
     (if hasAnswered st then Some st
      else
        (let isCorrect = (Some note = correctNote st) in
         case stats_of_js (loadStats (localStorage st)) of
           None \<Rightarrow> None
         | Some loaded \<Rightarrow>
             (let updated = recordAttempt loaded (correctNote st) (pos_fret (currentPosition st)) isCorrect;
                  st1 = st\<lparr>hasAnswered := True,
                           sessionCorrect := (if isCorrect then sessionCorrect st + 1 else sessionCorrect st),
                           sessionTotal := sessionTotal st + 1,
                           localStorage := saveStats (localStorage st) updated\<rparr>
              in Some (if isCorrect then setTimeout_800 st1 else st1\<lparr>nextBtn_hidden := False\<rparr>))))"

text \<open>
  A call of \<^verbatim>\<open>handleGuess\<close> with the value it returns. The function has no
  \<^verbatim>\<open>return\<close> with a value: it returns \<^verbatim>\<open>undefined\<close> from the \<^verbatim>\<open>return;\<close> of an
  answered round, and \<^verbatim>\<open>undefined\<close> from the end of its body.
\<close>

definition handleGuess_call :: "string \<Rightarrow> state \<Rightarrow> (jsval \<times> state) option" where
  "handleGuess_call note st =
     (if hasAnswered st then Some (JUndefined, st)
      else map_option (\<lambda>st'. (JUndefined, st')) (handleGuess note st))"

section \<open>The other handlers\<close>

text \<open>
  The click handler of the reset button; \<open>confirmed\<close> is the answer to its
  \<^verbatim>\<open>confirm\<close> dialog.
\<close>

definition resetStats_click :: "bool \<Rightarrow> state \<Rightarrow> state" where
  "resetStats_click confirmed st =
     (if confirmed
      then st\<lparr>localStorage := removeItem (localStorage st) STORAGE_KEY,
              sessionCorrect := 0,
              sessionTotal := 0\<rparr>
      else st)"

text \<open>
  Reading and assigning an array element. A read outside the array gives
  \<^verbatim>\<open>undefined\<close>; an assignment beyond its end lengthens it, leaving empty slots between.
\<close>

definition js_read :: "jsval list \<Rightarrow> nat \<Rightarrow> jsval" where
  "js_read xs i = (if i < length xs then (if xs ! i = JHole then JUndefined else xs ! i) else JUndefined)"

definition js_assign :: "jsval list \<Rightarrow> nat \<Rightarrow> jsval \<Rightarrow> jsval list" where
  "js_assign xs i v =
     (if i < length xs then xs[i := v] else xs @ replicate (i - length xs) JHole @ [v])"

text \<open>
  The click handlers of the toggle buttons; the argument is the index the button carries
  in \<^verbatim>\<open>data-fret\<close> or \<^verbatim>\<open>data-string\<close>.
\<close>

definition toggle :: "jsval list \<Rightarrow> nat \<Rightarrow> jsval list option" where
  "toggle xs i =
     (let newValue = \<not> truthy (js_read xs i);
          activeCount = length (filter truthy xs)
      in if \<not> newValue \<and> activeCount \<le> 1 then None else Some (js_assign xs i (JBool newValue)))"

definition fret_toggle_click :: "nat \<Rightarrow> state \<Rightarrow> state" where
  "fret_toggle_click fret st =
     (case toggle (frets (settings st)) fret of
        None \<Rightarrow> st
      | Some xs \<Rightarrow>
          (let s = (settings st)\<lparr>frets := xs\<rparr>
           in st\<lparr>settings := s, localStorage := saveSettings (localStorage st) s\<rparr>))"

definition string_toggle_click :: "nat \<Rightarrow> state \<Rightarrow> state" where
  "string_toggle_click string st =
     (case toggle (strings (settings st)) string of
        None \<Rightarrow> st
      | Some xs \<Rightarrow>
          (let s = (settings st)\<lparr>strings := xs\<rparr>
           in st\<lparr>settings := s, localStorage := saveSettings (localStorage st) s\<rparr>))"

text \<open>
  The All and None buttons: \<^verbatim>\<open>xs.map(() => true)\<close> and
  \<^verbatim>\<open>xs.map((_, i) => i === 0)\<close>; an empty slot stays empty.
\<close>

definition select_all :: "jsval list \<Rightarrow> jsval list" where
  "select_all xs = map (\<lambda>v. if v = JHole then JHole else JBool True) xs"

definition select_none :: "jsval list \<Rightarrow> jsval list" where
  "select_none xs =
     map (\<lambda>p. if snd p = JHole then JHole else JBool (fst p = 0)) (enumerate 0 xs)"

definition with_settings :: "settings \<Rightarrow> state \<Rightarrow> state" where
  "with_settings s st = st\<lparr>settings := s, localStorage := saveSettings (localStorage st) s\<rparr>"

definition frets_all_click :: "state \<Rightarrow> state" where
  "frets_all_click st = with_settings ((settings st)\<lparr>frets := select_all (frets (settings st))\<rparr>) st"

definition frets_none_click :: "state \<Rightarrow> state" where
  "frets_none_click st = with_settings ((settings st)\<lparr>frets := select_none (frets (settings st))\<rparr>) st"

definition strings_all_click :: "state \<Rightarrow> state" where
  "strings_all_click st = with_settings ((settings st)\<lparr>strings := select_all (strings (settings st))\<rparr>) st"

definition strings_none_click :: "state \<Rightarrow> state" where
  "strings_none_click st = with_settings ((settings st)\<lparr>strings := select_none (strings (settings st))\<rparr>) st"

definition resetSettings_click :: "bool \<Rightarrow> state \<Rightarrow> state" where
  "resetSettings_click confirmed st = (if confirmed then with_settings default_settings st else st)"

text \<open>The document's key handler, for Enter and Space.\<close>

definition advance_key :: "real \<Rightarrow> real \<Rightarrow> state \<Rightarrow> state" where
  "advance_key rs rf st = (if \<not> nextBtn_hidden st then newPosition rs rf st else st)"

text \<open>\<^verbatim>\<open>init\<close>: load the settings, then start the first round.\<close>

definition init :: "storage \<Rightarrow> real \<Rightarrow> real \<Rightarrow> state" where
  "init ls rs rf =
     (let st = initial_state ls
      in newPosition rs rf (st\<lparr>settings := loadSettings ls (settings st)\<rparr>))"

section \<open>Events\<close>

text \<open>
  What can happen to the page. A click on a wheel segment runs \<^verbatim>\<open>handleGuess\<close>. Enter
  or Space on a focused wheel segment runs the segment's key listener, which calls
  \<^verbatim>\<open>handleGuess\<close>, and then, the event bubbling on (the listener prevents the default
  action but does not stop the propagation), the document's key listener. Enter or Space
  anywhere else runs the document's key listener alone. A timeout fires only while it is
  pending; it is then no longer pending and its callback, \<^verbatim>\<open>newPosition\<close>, runs.
\<close>

datatype event =
    WheelGuess string
  | WheelKey string real real
  | NextClick real real
  | AdvanceKey real real
  | TimeoutFires nat real real
  | ResetStatsClick bool
  | FretToggle nat
  | StringToggle nat
  | FretsAll
  | FretsNone
  | StringsAll
  | StringsNone
  | ResetSettingsClick bool

fun handle :: "event \<Rightarrow> state \<Rightarrow> state option" where
  "handle (WheelGuess note) st = handleGuess note st"
| "handle (WheelKey note rs rf) st = map_option (advance_key rs rf) (handleGuess note st)"
| "handle (NextClick rs rf) st = Some (newPosition rs rf st)"
| "handle (AdvanceKey rs rf) st = Some (advance_key rs rf st)"
| "handle (TimeoutFires t rs rf) st =
     (if t \<in> fst ` set (timeouts st)
      then Some (newPosition rs rf (st\<lparr>timeouts := clearTimeout t (timeouts st)\<rparr>))
      else None)"
| "handle (ResetStatsClick confirmed) st = Some (resetStats_click confirmed st)"
| "handle (FretToggle i) st = Some (fret_toggle_click i st)"
| "handle (StringToggle i) st = Some (string_toggle_click i st)"
| "handle FretsAll st = Some (frets_all_click st)"
| "handle FretsNone st = Some (frets_none_click st)"
| "handle StringsAll st = Some (strings_all_click st)"
| "handle StringsNone st = Some (strings_none_click st)"
| "handle (ResetSettingsClick confirmed) st = Some (resetSettings_click confirmed st)"

text \<open>
  The states the page can be in: after \<^verbatim>\<open>init\<close>, and after any handler that ran to
  its end (a guess on stored statistics that are not well shaped is not followed, see
  \<open>handleGuess\<close>).
\<close>

inductive reachable :: "state \<Rightarrow> bool" where
  start: "reachable (init ls rs rf)"
| step: "reachable st \<Longrightarrow> handle e st = Some st' \<Longrightarrow> reachable st'"

text \<open>
  The requests to advance: a click on Next, and Enter or Space pressed outside the wheel.
  A key pressed on a wheel segment is a guess, not a request to advance.
\<close>

definition advance_request :: "event \<Rightarrow> bool" where
  "advance_request e = (case e of NextClick rs rf \<Rightarrow> True | AdvanceKey rs rf \<Rightarrow> True | _ \<Rightarrow> False)"

definition wheel_key :: "event \<Rightarrow> bool" where
  "wheel_key e = (case e of WheelKey g rs rf \<Rightarrow> True | _ \<Rightarrow> False)"

text \<open>Running a list of events, one handler after the other.\<close>

fun runs :: "event list \<Rightarrow> state \<Rightarrow> state option" where
  "runs [] st = Some st"
| "runs (e # es) st = (case handle e st of None \<Rightarrow> None | Some st' \<Rightarrow> runs es st')"

text \<open>
  The invariant of the auto-advance timer: the only timeout ever pending is the one whose
  id \<open>autoAdvanceTimeout\<close> holds, with delay 800, and one is pending only while the round
  is answered.
\<close>

definition timers_ok :: "state \<Rightarrow> bool" where
  "timers_ok st =
     (case autoAdvanceTimeout st of
        None \<Rightarrow> timeouts st = []
      | Some t \<Rightarrow> 0 < t \<and> hasAnswered st \<and> timeouts st = [(t, 800)])"

text \<open>
  A round that is answered with no timeout pending: nothing but a request to advance ends
  it.
\<close>

definition waiting :: "state \<Rightarrow> bool" where
  "waiting st = (hasAnswered st \<and> timeouts st = [] \<and> autoAdvanceTimeout st = None)"

text \<open>
  The settings invariant the handlers keep: the array is not empty, its first entry is
  not an empty slot, and some entry is enabled.
\<close>

definition some_enabled :: "jsval list \<Rightarrow> bool" where
  "some_enabled xs = (xs \<noteq> [] \<and> hd xs \<noteq> JHole \<and> (\<exists>v \<in> set xs. truthy v))"

definition settings_ok :: "state \<Rightarrow> bool" where
  "settings_ok st = (some_enabled (frets (settings st)) \<and> some_enabled (strings (settings st)))"

section \<open>The pitch model\<close>

lemma js_index_in_range:
  "0 \<le> i \<Longrightarrow> i < int (length xs) \<Longrightarrow> js_index xs i = Some (xs ! nat i)"
  by (simp add: js_index_def)

lemma start_index_in_range:
  assumes "0 \<le> s" and "s < 6"
  shows "js_index STRING_START_INDICES s = Some (STRING_START_INDICES ! nat s)"
  using assms by (intro js_index_in_range) (simp_all add: STRING_START_INDICES_def)

lemma start_index_nonneg:
  assumes "0 \<le> s" and "s < 6"
  shows "0 \<le> STRING_START_INDICES ! nat s"
proof -
  have "nat s < 6" using assms by simp
  then have "nat s \<in> {0, 1, 2, 3, 4, 5}" by auto
  then show ?thesis
    by (auto simp: STRING_START_INDICES_def)
qed

lemma note_index_in_range:
  assumes "0 \<le> m"
  shows "js_index NOTES (js_rem m 12) = Some (NOTES ! nat (m mod 12))"
proof -
  have "js_rem m 12 = m mod 12" using assms by (simp add: js_rem_def)
  moreover have "0 \<le> m mod 12" and "m mod 12 < int (length NOTES)"
    by (simp_all add: NOTES_def)
  ultimately show ?thesis by (simp add: js_index_in_range)
qed

text \<open>
  C5. On every string \<open>0..5\<close> and fret \<open>0..12\<close> the note is entry
  \<open>(STRING_START_INDICES[string] + fret) mod 12\<close> of \<open>NOTES\<close>; the table is standard
  tuning (its entries name E B G D A E, high string first); and the low E string (index 5,
  and equally the high E string, index 0) shows E at fret 0, E at fret 12 and A at fret 5.
\<close>

theorem getNoteAtPosition_formula:
  "(0 \<le> s \<and> s < 6 \<and> 0 \<le> f \<and> f \<le> 12 \<longrightarrow>
      getNoteAtPosition (Some s) (Some f)
        = Some (NOTES ! nat ((STRING_START_INDICES ! nat s + f) mod 12)))
   \<and> map (\<lambda>i. NOTES ! nat i) STRING_START_INDICES = STRING_NOTES
   \<and> getNoteDisplayName (getNoteAtPosition (Some 5) (Some 0)) = Some ''E''
   \<and> getNoteDisplayName (getNoteAtPosition (Some 5) (Some 12)) = Some ''E''
   \<and> getNoteDisplayName (getNoteAtPosition (Some 5) (Some 5)) = Some ''A''
   \<and> getNoteDisplayName (getNoteAtPosition (Some 0) (Some 0)) = Some ''E''
   \<and> getNoteDisplayName (getNoteAtPosition (Some 0) (Some 12)) = Some ''E''
   \<and> getNoteDisplayName (getNoteAtPosition (Some 0) (Some 5)) = Some ''A''"
proof -
  have general: "getNoteAtPosition (Some s) (Some f)
        = Some (NOTES ! nat ((STRING_START_INDICES ! nat s + f) mod 12))"
    if "0 \<le> s" "s < 6" "0 \<le> f" "f \<le> 12"
  proof -
    have "0 \<le> STRING_START_INDICES ! nat s + f"
      using start_index_nonneg [OF that(1,2)] that(3) by simp
    then show ?thesis
      by (simp add: getNoteAtPosition_def start_index_in_range [OF that(1,2)]
          note_index_in_range)
  qed
  have table: "map (\<lambda>i. NOTES ! nat i) STRING_START_INDICES = STRING_NOTES"
    by (simp add: STRING_START_INDICES_def NOTES_def STRING_NOTES_def)
  have concrete:
    "getNoteDisplayName (getNoteAtPosition (Some 5) (Some 0)) = Some ''E''"
    "getNoteDisplayName (getNoteAtPosition (Some 5) (Some 12)) = Some ''E''"
    "getNoteDisplayName (getNoteAtPosition (Some 5) (Some 5)) = Some ''A''"
    "getNoteDisplayName (getNoteAtPosition (Some 0) (Some 0)) = Some ''E''"
    "getNoteDisplayName (getNoteAtPosition (Some 0) (Some 12)) = Some ''E''"
    "getNoteDisplayName (getNoteAtPosition (Some 0) (Some 5)) = Some ''A''"
    by (simp_all add: getNoteDisplayName_def getNoteAtPosition_def js_index_def js_rem_def
        STRING_START_INDICES_def NOTES_def displayMap_def)
  from general table concrete show ?thesis by simp
qed

theorem getNoteAtPosition_formula_witness:
  "(0::int) \<le> 3 \<and> (3::int) < 6 \<and> (0::int) \<le> 7 \<and> (7::int) \<le> 12
   \<and> getNoteAtPosition (Some 3) (Some 7) = Some ''A''
   \<and> NOTES ! nat ((STRING_START_INDICES ! nat 3 + 7) mod 12) = ''A''"
proof -
  have eq: "getNoteAtPosition (Some 3) (Some 7)
      = Some (NOTES ! nat ((STRING_START_INDICES ! nat 3 + 7) mod 12))"
    using getNoteAtPosition_formula [of 3 7] by simp
  have val: "NOTES ! nat ((STRING_START_INDICES ! nat 3 + 7) mod 12) = ''A''"
    by (simp add: STRING_START_INDICES_def NOTES_def)
  from eq val show ?thesis by simp
qed

section \<open>Statistics: counting attempts\<close>

text \<open>
  Updating the entry under one key changes the sum of the totals by the difference of the
  two totals, whether or not the key was there; so each recorded attempt adds one to it.
\<close>

lemma entry_update: "entry (AList.update k c es) k' = (if k' = k then c else entry es k')"
  by (simp add: entry_def update_conv')

lemma sum_totals_update:
  "sum_totals (AList.update k c es) = sum_totals es - n_total (entry es k) + n_total c"
  by (induction es) (auto simp: sum_totals_def entry_def zero_counter_def)

lemma sum_totals_bump: "sum_totals (bump b k es) = sum_totals es + 1"
  by (simp add: bump_def Let_def sum_totals_update entry_def split: option.splits)

lemma entry_bump:
  "entry (bump b k es) k' =
     (if k' = k
      then \<lparr>n_correct = n_correct (entry es k) + (if b then 1 else 0),
            n_total = n_total (entry es k) + 1\<rparr>
      else entry es k')"
proof -
  let ?c = "entry es k"
  have "entry (bump b k es) k' =
      (if k' = k
       then (if b then ?c\<lparr>n_total := n_total ?c + 1, n_correct := n_correct ?c + 1\<rparr>
             else ?c\<lparr>n_total := n_total ?c + 1\<rparr>)
       else entry es k')"
    unfolding bump_def Let_def entry_update by (simp add: entry_def)
  then show ?thesis by simp
qed

lemma map_of_bump_other: "k' \<noteq> k \<Longrightarrow> map_of (bump b k es) k' = map_of es k'"
  by (simp add: bump_def Let_def update_conv')

lemma recordAttempt_keeps_sum:
  "totalAttempts s = sum_totals (fretStats s) \<Longrightarrow>
   totalAttempts (recordAttempt s note fret c) = sum_totals (fretStats (recordAttempt s note fret c))"
  by (simp add: recordAttempt_def sum_totals_bump)

lemma recordAttempts_keeps_sum:
  "totalAttempts s = sum_totals (fretStats s) \<Longrightarrow>
   totalAttempts (recordAttempts s as) = sum_totals (fretStats (recordAttempts s as))"
  by (induction s as rule: recordAttempts.induct) (simp_all add: recordAttempt_keeps_sum)

lemma empty_stats_sum: "totalAttempts createEmptyStats = sum_totals (fretStats createEmptyStats)"
  by (simp add: createEmptyStats_def sum_totals_def zero_counter_def comp_def)

lemma json_of_counter: "json_of (js_of_counter c) = js_of_counter c"
  by (simp add: js_of_counter_def)

lemma json_of_entries: "json_of (js_of_entries es) = js_of_entries es"
  by (induction es) (auto simp: js_of_entries_def js_of_counter_def)

lemma json_of_stats: "json_of (js_of_stats s) = js_of_stats s"
  using json_of_entries[of "noteStats s"] json_of_entries[of "fretStats s"]
  by (simp add: js_of_stats_def js_of_entries_def)

lemma counter_roundtrip: "counter_of_js (js_of_counter c) = Some c"
  by (simp add: counter_of_js_def js_of_counter_def)

lemma entries_roundtrip:
  "entries_of_js (map (\<lambda>e. (fst e, js_of_counter (snd e))) es) = Some es"
  by (induction es) (simp_all add: counter_roundtrip)

lemma stats_roundtrip: "stats_of_js (js_of_stats s) = Some s"
  by (simp add: stats_of_js_def js_of_stats_def js_of_entries_def entries_roundtrip)

text \<open>The fret keys of the empty record are the numerals of 0 to 12.\<close>

lemma digits12:
  "map (\<lambda>i. key_of_int (int i)) [0 ..< FRET_COUNT]
     = map (\<lambda>c. [c]) ''0123456789'' @ [''10'', ''11'', ''12'']"
  by code_simp

lemma fret_keys:
  "fretStats createEmptyStats
     = map (\<lambda>k. (k, zero_counter)) (map (\<lambda>c. [c]) ''0123456789'' @ [''10'', ''11'', ''12''])"
proof -
  have "map (\<lambda>k. (k, zero_counter)) (map (\<lambda>i. key_of_int (int i)) [0 ..< FRET_COUNT])
      = map (\<lambda>k. (k, zero_counter)) (map (\<lambda>c. [c]) ''0123456789'' @ [''10'', ''11'', ''12''])"
    by (simp only: digits12)
  then show ?thesis by (simp add: createEmptyStats_def comp_def)
qed

text \<open>
  C3. One recorded attempt adds exactly one to \<open>totalAttempts\<close>, to the total of the
  note's entry and to the total of the fret's entry (an entry that is missing counts as
  \<open>{0, 0}\<close> and is created), and one to the three \<open>correct\<close> counters exactly when the
  guess was correct. After any sequence of attempts on the record \<open>createEmptyStats\<close>
  builds, \<open>totalAttempts\<close> is the sum of the totals of all fret entries. Recording
  \<open>("A", 0, true)\<close> and then \<open>("A", 0, false)\<close> on that record leaves
  \<open>noteStats["A"] = {correct: 1, total: 2}\<close>, \<open>totalAttempts = 2\<close> and
  \<open>totalCorrect = 1\<close>.
\<close>

theorem recordAttempt_counts:
  "totalAttempts (recordAttempt s note fret c) = totalAttempts s + 1
   \<and> totalCorrect (recordAttempt s note fret c) = totalCorrect s + (if c then 1 else 0)
   \<and> entry (noteStats (recordAttempt s note fret c)) (note_key note)
       = \<lparr>n_correct = n_correct (entry (noteStats s) (note_key note)) + (if c then 1 else 0),
          n_total = n_total (entry (noteStats s) (note_key note)) + 1\<rparr>
   \<and> entry (fretStats (recordAttempt s note fret c)) (fret_key fret)
       = \<lparr>n_correct = n_correct (entry (fretStats s) (fret_key fret)) + (if c then 1 else 0),
          n_total = n_total (entry (fretStats s) (fret_key fret)) + 1\<rparr>
   \<and> totalAttempts (recordAttempts createEmptyStats attempts)
       = sum_totals (fretStats (recordAttempts createEmptyStats attempts))
   \<and> map_of (noteStats (recordAttempts createEmptyStats
               [(Some ''A'', Some 0, True), (Some ''A'', Some 0, False)])) ''A''
       = Some \<lparr>n_correct = 1, n_total = 2\<rparr>
   \<and> totalAttempts (recordAttempts createEmptyStats
         [(Some ''A'', Some 0, True), (Some ''A'', Some 0, False)]) = 2
   \<and> totalCorrect (recordAttempts createEmptyStats
         [(Some ''A'', Some 0, True), (Some ''A'', Some 0, False)]) = 1"
proof -
  have one: "totalAttempts (recordAttempt s note fret c) = totalAttempts s + 1"
    "totalCorrect (recordAttempt s note fret c) = totalCorrect s + (if c then 1 else 0)"
    by (simp_all add: recordAttempt_def)
  have per_note: "entry (noteStats (recordAttempt s note fret c)) (note_key note)
       = \<lparr>n_correct = n_correct (entry (noteStats s) (note_key note)) + (if c then 1 else 0),
          n_total = n_total (entry (noteStats s) (note_key note)) + 1\<rparr>"
    by (simp add: recordAttempt_def entry_bump)
  have per_fret: "entry (fretStats (recordAttempt s note fret c)) (fret_key fret)
       = \<lparr>n_correct = n_correct (entry (fretStats s) (fret_key fret)) + (if c then 1 else 0),
          n_total = n_total (entry (fretStats s) (fret_key fret)) + 1\<rparr>"
    by (simp add: recordAttempt_def entry_bump)
  have sums: "totalAttempts (recordAttempts createEmptyStats attempts)
       = sum_totals (fretStats (recordAttempts createEmptyStats attempts))"
    by (rule recordAttempts_keeps_sum) (rule empty_stats_sum)
  have scenario: "map_of (noteStats (recordAttempts createEmptyStats
               [(Some ''A'', Some 0, True), (Some ''A'', Some 0, False)])) ''A''
       = Some \<lparr>n_correct = 1, n_total = 2\<rparr>"
    by (simp add: createEmptyStats_def recordAttempt_def bump_def NOTE_DISPLAY_def note_key_def
        zero_counter_def Let_def)
  have totals: "totalAttempts (recordAttempts createEmptyStats
         [(Some ''A'', Some 0, True), (Some ''A'', Some 0, False)]) = 2"
    "totalCorrect (recordAttempts createEmptyStats
         [(Some ''A'', Some 0, True), (Some ''A'', Some 0, False)]) = 1"
    by (simp_all add: recordAttempt_def createEmptyStats_def)
  from one per_note per_fret sums scenario totals show ?thesis by blast
qed

section \<open>Rounds: what a new round draws\<close>

text \<open>
  The valid indices are exactly the indices of the truthy entries, and a double drawn from
  \<open>0 \<le> r < 1\<close> picks one of them whenever there is one.
\<close>

lemma truthy_not_hole: "truthy v \<Longrightarrow> v \<noteq> JHole"
  by (cases v) simp_all

lemma valid_indices_iff:
  "x \<in> set (valid_indices xs) \<longleftrightarrow> (\<exists>i < length xs. x = int i \<and> truthy (xs ! i))"
proof
  assume "x \<in> set (valid_indices xs)"
  then obtain p where p: "p \<in> set (enumerate 0 xs)" "snd p \<noteq> JHole"
    and x: "x = (if truthy (snd p) then int (fst p) else - 1)" "0 \<le> x"
    unfolding valid_indices_def by auto
  from x have "truthy (snd p)" "x = int (fst p)" by (simp_all split: if_splits)
  moreover from p(1) have "fst p < length xs" "snd p = xs ! fst p"
    by (simp_all add: in_set_enumerate_eq)
  ultimately show "\<exists>i < length xs. x = int i \<and> truthy (xs ! i)" by auto
next
  assume "\<exists>i < length xs. x = int i \<and> truthy (xs ! i)"
  then obtain i where i: "i < length xs" "x = int i" "truthy (xs ! i)" by blast
  let ?p = "(i, xs ! i)"
  have "?p \<in> set (enumerate 0 xs)" using i(1) by (simp add: in_set_enumerate_eq)
  moreover have "snd ?p \<noteq> JHole" using i(3) by (simp add: truthy_not_hole)
  ultimately have "?p \<in> set (filter (\<lambda>p. snd p \<noteq> JHole) (enumerate 0 xs))" by simp
  then have "(\<lambda>p. if truthy (snd p) then int (fst p) else - 1) ?p
      \<in> set (map (\<lambda>p. if truthy (snd p) then int (fst p) else - 1)
               (filter (\<lambda>p. snd p \<noteq> JHole) (enumerate 0 xs)))"
    unfolding set_map by (rule imageI)
  with i(2,3) show "x \<in> set (valid_indices xs)"
    unfolding valid_indices_def by simp
qed

lemma valid_indices_empty_iff:
  "valid_indices xs = [] \<longleftrightarrow> (\<forall>v \<in> set xs. \<not> truthy v)"
proof -
  have "valid_indices xs = [] \<longleftrightarrow> (\<forall>x. x \<notin> set (valid_indices xs))"
    by (cases "valid_indices xs") auto
  also have "\<dots> \<longleftrightarrow> (\<forall>i < length xs. \<not> truthy (xs ! i))"
    unfolding valid_indices_iff by blast
  also have "\<dots> \<longleftrightarrow> (\<forall>v \<in> set xs. \<not> truthy v)"
    by (simp add: all_set_conv_all_nth)
  finally show ?thesis .
qed

subsection \<open>The index drawn\<close>

text \<open>
  Rounding never takes the product of a double below 1 and a length up to the length: a
  double below 1 is at most \<^verbatim>\<open>1 - 2^-53\<close>, so the exact product stays more than half a
  step of the doubles below the length away from the length.
\<close>

lemma half_even_bounds:
  "N div 2 ^ s \<le> half_even N s" "half_even N s \<le> N div 2 ^ s + 1"
  by (simp_all add: half_even_def Let_def)

lemma half_even_up:
  assumes "half_even N s = N div 2 ^ s + 1"
  shows "2 ^ s \<le> 2 * (N mod 2 ^ s)"
  using assms by (simp add: half_even_def Let_def split: if_splits)

lemma half_even_exact: "2 ^ s dvd N \<Longrightarrow> half_even N s * 2 ^ s = N"
  by (auto simp: half_even_def Let_def)

lemma round_units_nonneg: "0 \<le> N \<Longrightarrow> 0 \<le> round_units N"
proof -
  assume "0 \<le> N"
  then have "0 \<le> N div 2 ^ nat (bitlen N - 53)" by (simp add: pos_imp_zdiv_nonneg_iff)
  with half_even_bounds(1) [of N "nat (bitlen N - 53)"] show ?thesis
    by (simp add: round_units_def)
qed

lemma round_units_0 [simp]: "round_units 0 = 0"
  by (simp add: round_units_def half_even_def)

text \<open>A number with at most 53 bits, times a power of two, is a double.\<close>

lemma round_units_exact:
  assumes "0 \<le> m" and "m < 2 ^ 53"
  shows "round_units (m * 2 ^ t) = m * 2 ^ t"
proof (cases "m = 0")
  case True
  then show ?thesis by simp
next
  case False
  with assms have m: "0 < m" by simp
  let ?N = "m * 2 ^ t"
  have "bitlen m \<le> 53" using assms(2) by (simp add: bitlen_le_iff_power)
  then have "nat (bitlen ?N - 53) \<le> t" using m by simp
  then have "(2::int) ^ nat (bitlen ?N - 53) dvd 2 ^ t" by (rule le_imp_power_dvd)
  then have "2 ^ nat (bitlen ?N - 53) dvd ?N" by (rule dvd_mult)
  then show ?thesis unfolding round_units_def by (rule half_even_exact)
qed

lemma fixed_below_top:
  assumes fixed: "round_units M = M" and Mlt: "M < 2 ^ (k + 53)"
  shows "M \<le> 2 ^ (k + 53) - 2 ^ k"
proof (cases "M < 2 ^ (k + 52)")
  case True
  have "(2::int) ^ k \<le> 2 ^ (k + 52)" by (rule power_increasing) simp_all
  moreover have "(2::int) ^ (k + 53) = 2 * 2 ^ (k + 52)" by (simp add: power_add)
  ultimately show ?thesis using True by linarith
next
  case False
  then have lo: "2 ^ (k + 52) \<le> M" by simp
  have nk: "nat (int k + 53) = k + 53" "nat (int k + 53) - 1 = k + 52" by simp_all
  have "bitlen M \<le> int k + 53" using Mlt by (simp add: bitlen_le_iff_power nk)
  moreover have "int k + 53 \<le> bitlen M" using lo by (simp add: bitlen_ge_iff_power nk ac_simps)
  ultimately have b: "nat (bitlen M - 53) = k" by simp
  from fixed have "half_even M k * 2 ^ k = M" by (simp add: round_units_def b)
  then obtain c where c: "M = c * 2 ^ k" by metis
  with Mlt have "c * 2 ^ k < 2 ^ 53 * (2::int) ^ k" by (simp add: power_add)
  then have "c < 2 ^ 53" by simp
  then have "c + 1 \<le> 2 ^ 53" by simp
  then have "(c + 1) * 2 ^ k \<le> 2 ^ 53 * (2::int) ^ k" by (rule mult_right_mono) simp
  then have "c * 2 ^ k + 2 ^ k \<le> (2::int) ^ (k + 53)" by (simp add: algebra_simps power_add)
  with c show ?thesis by linarith
qed

lemma round_units_product:
  assumes M: "0 \<le> M" "M \<le> 2 ^ (k + 53) - 2 ^ k" and n: "0 < n" "n < 2 ^ 53"
  shows "round_units (M * n) < n * 2 ^ (k + 53)"
proof (cases "M * n = 0")
  case True
  with n show ?thesis by simp
next
  case False
  let ?N = "M * n" and ?U = "(2::int) ^ (k + 53)"
  let ?b = "bitlen ?N"
  let ?s = "nat (?b - 53)"
  from False M n have Npos: "0 < ?N" by (simp add: zero_less_mult_iff)
  have "?N \<le> (?U - 2 ^ k) * n" using M(2) n(1) by (simp add: mult_right_mono)
  then have Nup: "?N + n * 2 ^ k \<le> n * ?U" by (simp add: algebra_simps)
  moreover have "0 < n * (2::int) ^ k" using n(1) by simp
  ultimately have Nlt: "?N < n * ?U" by linarith
  from bitlen_bounds [OF Npos] have lo: "2 ^ nat (?b - 1) \<le> ?N" and hi: "?N < 2 ^ nat ?b"
    by simp_all
  show ?thesis
  proof (cases "?b \<le> 53")
    case True
    then have "?s = 0" by simp
    then have "round_units ?N = ?N" by (simp add: round_units_def half_even_def)
    with Nlt show ?thesis by simp
  next
    case False
    then have b: "53 < ?b" by simp
    have "n * ?U < 2 ^ 53 * ?U" using n(2) by simp
    also have "\<dots> = 2 ^ (k + 106)" by (simp add: power_add)
    finally have "(2::int) ^ nat (?b - 1) < 2 ^ (k + 106)" using lo Nlt by linarith
    then have "nat (?b - 1) < k + 106" by (rule power_less_imp_less_exp [rotated]) simp
    with b have s: "?s \<le> k + 53" and s1: "nat (?b - 1) = ?s + 52" by simp_all
    define Q where "Q = n * 2 ^ (k + 53 - ?s)"
    have "(2::int) ^ (k + 53 - ?s) * 2 ^ ?s = 2 ^ (k + 53)"
      using s by (simp flip: power_add)
    then have QU: "Q * 2 ^ ?s = n * ?U" by (simp add: Q_def)
    let ?q = "?N div 2 ^ ?s"
    have Nq: "?N = ?q * 2 ^ ?s + ?N mod 2 ^ ?s" by (rule div_mult_mod_eq [symmetric])
    have "0 \<le> ?N mod 2 ^ ?s" by simp
    with Nq have "?q * 2 ^ ?s \<le> ?N" by linarith
    with Nlt QU have "?q * 2 ^ ?s < Q * 2 ^ ?s" by linarith
    then have qQ: "?q < Q" by simp
    have "half_even ?N ?s < Q"
    proof (rule ccontr)
      assume "\<not> half_even ?N ?s < Q"
      with half_even_bounds(2) [of ?N ?s] qQ
      have up: "half_even ?N ?s = ?q + 1" and q: "?q = Q - 1" by linarith+
      from half_even_up [OF up] have "2 ^ ?s \<le> 2 * (?N mod 2 ^ ?s)" .
      with Nq have "2 * (?q * 2 ^ ?s) + 2 ^ ?s \<le> 2 * ?N" by linarith
      then have "2 * (Q * 2 ^ ?s) \<le> 2 * ?N + 2 ^ ?s" by (simp add: q algebra_simps)
      with QU Nup have "2 * (n * 2 ^ k) \<le> (2::int) ^ ?s" by linarith
      then have a: "2 * (n * 2 ^ k) * 2 ^ 52 \<le> (2::int) ^ ?s * 2 ^ 52"
        by (rule mult_right_mono) simp
      have b: "2 * (n * 2 ^ k) * 2 ^ 52 = n * ?U" by (simp add: power_add)
      have c: "(2::int) ^ ?s * 2 ^ 52 = 2 ^ nat (?b - 1)" by (simp add: s1 power_add)
      from a have "n * ?U \<le> 2 ^ nat (?b - 1)" unfolding b c .
      with lo Nlt show False by linarith
    qed
    then have "half_even ?N ?s * 2 ^ ?s < Q * 2 ^ ?s" by simp
    with QU show ?thesis by (simp add: round_units_def)
  qed
qed

lemma js_floor_mul_in_range:
  assumes "nonneg_double r" and "r < 1" and "0 < n" and "n < 2 ^ 53"
  shows "0 \<le> js_floor_mul r n \<and> js_floor_mul r n < int n"
proof -
  define k where "k = unit_exp - 53"
  define U :: int where "U = 2 ^ unit_exp"
  have ue: "unit_exp = k + 53" by (simp add: k_def unit_exp_def)
  have U: "(2::real) ^ unit_exp = of_int U" "U = 2 ^ (k + 53)" by (simp_all add: U_def ue)
  let ?M = "\<lfloor>r * of_int U\<rfloor>"
  have Upos: "0 < U" by (simp add: U_def)
  from assms(1) have r: "0 \<le> r" and fixed: "round_units ?M = ?M"
    unfolding nonneg_double_def U(1) by simp_all
  from r Upos have M0: "0 \<le> ?M" by simp
  from assms(2) Upos have "r * of_int U < of_int U" by simp
  then have "?M < U" by (simp add: floor_less_iff)
  then have "?M < 2 ^ (k + 53)" by (simp only: U(2))
  from fixed_below_top [OF fixed this] have M1: "?M \<le> 2 ^ (k + 53) - 2 ^ k" .
  have n: "0 < int n" "int n < 2 ^ 53" using assms(3,4) by simp_all
  from round_units_product [OF M0 M1 n] have lt: "round_units (?M * int n) < int n * U"
    by (simp only: U(2))
  have "round_units (?M * int n) div U < int n"
  proof (rule ccontr)
    let ?x = "round_units (?M * int n)"
    assume "\<not> ?x div U < int n"
    then have "int n * U \<le> ?x div U * U" using Upos by (intro mult_right_mono) simp_all
    moreover have "?x = ?x div U * U + ?x mod U" by (rule div_mult_mod_eq [symmetric])
    moreover have "0 \<le> ?x mod U" using Upos by simp
    ultimately show False using lt by linarith
  qed
  moreover have "0 \<le> round_units (?M * int n)"
    using M0 by (intro round_units_nonneg) simp
  then have "0 \<le> round_units (?M * int n) div U"
    using Upos by (simp add: pos_imp_zdiv_nonneg_iff)
  ultimately show ?thesis unfolding js_floor_mul_def U(1) by (simp add: U_def)
qed

text \<open>
  Evaluating a draw \<open>m / 2 ^ j\<close>: rounding commutes with a power of two, so the index
  is \<open>round_units (m * n) div 2 ^ j\<close>.
\<close>

lemma half_even_scale: "half_even (a * 2 ^ t) (s + t) = half_even a s"
proof -
  have d: "a * 2 ^ t div 2 ^ (s + t) = a div 2 ^ s"
    by (simp add: power_add)
  have m: "a * 2 ^ t mod 2 ^ (s + t) = a mod 2 ^ s * 2 ^ t"
    by (simp add: power_add mult_mod_left mult.commute)
  have c1: "2 * (a mod 2 ^ s * 2 ^ t) < 2 ^ (s + t) \<longleftrightarrow> 2 * (a mod 2 ^ s) < 2 ^ s"
    and c2: "2 ^ (s + t) < 2 * (a mod 2 ^ s * 2 ^ t) \<longleftrightarrow> 2 ^ s < 2 * (a mod 2 ^ s)"
    by (simp_all add: power_add)
  show ?thesis unfolding half_even_def Let_def d m c1 c2 ..
qed

lemma round_units_scale:
  assumes "0 \<le> a"
  shows "round_units (a * 2 ^ t) = round_units a * 2 ^ t"
proof (cases "a = 0")
  case True
  then show ?thesis by simp
next
  case False
  with assms have a: "0 < a" by simp
  show ?thesis
  proof (cases "bitlen a \<le> 53")
    case True
    then have "a < 2 ^ 53" by (simp add: bitlen_le_iff_power)
    with assms show ?thesis
      using round_units_exact [of a t] round_units_exact [of a 0] by simp
  next
    case False
    then have "nat (bitlen (a * 2 ^ t) - 53) = nat (bitlen a - 53) + t"
      using a by simp
    then show ?thesis
      by (simp add: round_units_def half_even_scale power_add)
  qed
qed

lemma dyadic_units:
  assumes "j \<le> unit_exp"
  shows "real_of_int m / 2 ^ j * 2 ^ unit_exp = of_int (m * 2 ^ (unit_exp - j))"
proof -
  have "(2::real) ^ unit_exp = 2 ^ j * 2 ^ (unit_exp - j)"
    using assms by (simp flip: power_add)
  then show ?thesis by simp
qed

lemma js_floor_mul_dyadic:
  assumes "0 \<le> m" and "j \<le> unit_exp"
  shows "js_floor_mul (real_of_int m / 2 ^ j) n = round_units (m * int n) div 2 ^ j"
proof -
  have "(2::int) ^ unit_exp = 2 ^ (unit_exp - j) * 2 ^ j"
    using assms(2) by (simp flip: power_add)
  then have split: "x * 2 ^ (unit_exp - j) div 2 ^ unit_exp = x div 2 ^ j" for x :: int
    by simp
  have "round_units (m * 2 ^ (unit_exp - j) * int n) = round_units (m * int n) * 2 ^ (unit_exp - j)"
    using round_units_scale [of "m * int n" "unit_exp - j"] assms(1) by (simp add: ac_simps)
  then show ?thesis
    unfolding js_floor_mul_def dyadic_units [OF assms(2)] floor_of_int by (simp only: split)
qed

lemma nonneg_double_dyadic:
  assumes "0 \<le> m" and "m < 2 ^ 53" and "j \<le> unit_exp"
  shows "nonneg_double (real_of_int m / 2 ^ j)"
  unfolding nonneg_double_def dyadic_units [OF assms(3)] floor_of_int
  using assms(1) round_units_exact [OF assms(1,2)] by simp

lemma js_floor_mul_zero: "js_floor_mul 0 n = 0"
  by (simp add: js_floor_mul_def)

text \<open>
  A tie that rounding takes up: three times the double \<open>6004799503160661 / 2 ^ 53\<close> is
  exactly \<^verbatim>\<open>2 - 2^-53\<close>, half way between two doubles; the product is 2 and the entry
  picked is the last of three.
\<close>

lemma round_tie: "round_units 18014398509481983 = 18014398509481984"
proof -
  have "bitlen 18014398509481983 \<le> 54" by (simp add: bitlen_le_iff_power)
  moreover have "54 \<le> bitlen 18014398509481983" by (simp add: bitlen_ge_iff_power)
  ultimately have "bitlen 18014398509481983 = 54" by simp
  then show ?thesis by (simp add: round_units_def half_even_def)
qed

lemma random_pick_tie: "random_pick (6004799503160661 / 9007199254740992) [0, 2, 4] = Some 4"
proof -
  have "js_floor_mul (6004799503160661 / 9007199254740992) 3 = 2"
    using js_floor_mul_dyadic [of 6004799503160661 53 3] round_tie
    by (simp add: unit_exp_def)
  moreover have "length [0, 2, 4 :: int] = 3" by simp
  ultimately show ?thesis
    unfolding random_pick_def by (simp only: js_index_def) simp
qed

lemma random_pick_empty: "random_pick r [] = None"
  by (simp add: random_pick_def js_index_def)

lemma random_pick_member:
  assumes "nonneg_double r" and "r < 1" and "valid \<noteq> []" and "length valid < 2 ^ 53"
  shows "\<exists>v \<in> set valid. random_pick r valid = Some v"
proof -
  let ?n = "length valid"
  have n: "0 < ?n" using assms(3) by simp
  from js_floor_mul_in_range [OF assms(1,2) n assms(4)]
  have lo: "0 \<le> js_floor_mul r ?n" and hi: "js_floor_mul r ?n < int ?n" by simp_all
  then have "random_pick r valid = Some (valid ! nat (js_floor_mul r ?n))"
    by (simp add: random_pick_def js_index_def)
  moreover from lo hi have "valid ! nat (js_floor_mul r ?n) \<in> set valid"
    by (intro nth_mem) linarith
  ultimately show ?thesis by blast
qed

lemma length_valid_indices: "length (valid_indices xs) \<le> length xs"
proof -
  have "length (valid_indices xs) \<le> length (filter (\<lambda>p. snd p \<noteq> JHole) (enumerate 0 xs))"
    unfolding valid_indices_def by (rule order_trans [OF length_filter_le]) simp
  also have "\<dots> \<le> length (enumerate 0 xs)" by (rule length_filter_le)
  finally show ?thesis by simp
qed

lemma newPosition_settings: "settings (newPosition rs rf st) = settings st"
  by (simp add: newPosition_def Let_def split: option.splits)

lemma newPosition_position:
  "currentPosition (newPosition rs rf st)
     = \<lparr>pos_string = random_pick rs (valid_indices (strings (settings st))),
        pos_fret = random_pick rf (valid_indices (frets (settings st)))\<rparr>"
  by (simp add: newPosition_def Let_def split: option.splits)

lemma newPosition_answer:
  "correctNote (newPosition rs rf st)
     = getNoteDisplayName (getNoteAtPosition (pos_string (currentPosition (newPosition rs rf st)))
         (pos_fret (currentPosition (newPosition rs rf st))))"
  by (simp add: newPosition_def Let_def split: option.splits)

lemma newPosition_unanswered: "\<not> hasAnswered (newPosition rs rf st)"
  by (simp add: newPosition_def Let_def split: option.splits)

text \<open>
  C6. When some fret and some string is enabled, whatever the two doubles
  \<^verbatim>\<open>Math.random()\<close> returns (each at least 0 and below 1; the settings arrays, as every
  JavaScript array, have fewer than \<open>2 ^ 32\<close> entries), the new position has a fret and a
  string that are indices of enabled entries of the settings; in particular, when fret 0
  is the only enabled fret, the fret drawn is 0. The index is the one the script computes:
  the product is rounded to a double before \<^verbatim>\<open>Math.floor\<close>.
\<close>

theorem newPosition_draws_enabled:
  assumes "nonneg_double rs" and "rs < 1" and "nonneg_double rf" and "rf < 1"
    and "length (frets (settings st)) < 2 ^ 32"
    and "length (strings (settings st)) < 2 ^ 32"
    and "\<exists>v \<in> set (frets (settings st)). truthy v"
    and "\<exists>v \<in> set (strings (settings st)). truthy v"
  shows "\<exists>s f. currentPosition (newPosition rs rf st) = \<lparr>pos_string = Some s, pos_fret = Some f\<rparr>
          \<and> 0 \<le> f \<and> f < int (length (frets (settings st))) \<and> truthy (frets (settings st) ! nat f)
          \<and> 0 \<le> s \<and> s < int (length (strings (settings st))) \<and> truthy (strings (settings st) ! nat s)
          \<and> ((\<forall>i < length (frets (settings st)). truthy (frets (settings st) ! i) \<longrightarrow> i = 0) \<longrightarrow> f = 0)"
proof -
  let ?fr = "frets (settings st)" and ?sr = "strings (settings st)"
  have small: "length (valid_indices xs) < 2 ^ 53" if "length xs < 2 ^ 32" for xs :: "jsval list"
  proof -
    have "(2::nat) ^ 32 \<le> 2 ^ 53" by (rule power_increasing) simp_all
    with that length_valid_indices [of xs] show ?thesis by linarith
  qed
  from assms(7) have "valid_indices ?fr \<noteq> []" by (simp add: valid_indices_empty_iff)
  from random_pick_member [OF assms(3,4) this small [OF assms(5)]]
  obtain f where f: "f \<in> set (valid_indices ?fr)" "random_pick rf (valid_indices ?fr) = Some f"
    by blast
  from assms(8) have "valid_indices ?sr \<noteq> []" by (simp add: valid_indices_empty_iff)
  from random_pick_member [OF assms(1,2) this small [OF assms(6)]]
  obtain s where s: "s \<in> set (valid_indices ?sr)" "random_pick rs (valid_indices ?sr) = Some s"
    by blast
  from f(1) obtain i where i: "i < length ?fr" "f = int i" "truthy (?fr ! i)"
    unfolding valid_indices_iff by blast
  from s(1) obtain j where j: "j < length ?sr" "s = int j" "truthy (?sr ! j)"
    unfolding valid_indices_iff by blast
  have "currentPosition (newPosition rs rf st) = \<lparr>pos_string = Some s, pos_fret = Some f\<rparr>"
    by (simp add: newPosition_position f(2) s(2))
  moreover have "0 \<le> f \<and> f < int (length ?fr) \<and> truthy (?fr ! nat f)" using i by simp
  moreover have "0 \<le> s \<and> s < int (length ?sr) \<and> truthy (?sr ! nat s)" using j by simp
  moreover have "(\<forall>i < length ?fr. truthy (?fr ! i) \<longrightarrow> i = 0) \<longrightarrow> f = 0" using i by auto
  ultimately show ?thesis by blast
qed

theorem newPosition_draws_enabled_witness:
  "nonneg_double (1 / 2) \<and> (1::real) / 2 < 1 \<and> nonneg_double (3 / 4) \<and> (3::real) / 4 < 1
   \<and> length [JBool True, JBool False, JBool False, JBool False, JBool False, JBool False,
         JBool False, JBool False, JBool False, JBool False, JBool False, JBool False, JBool False]
       < 2 ^ 32
   \<and> length (strings default_settings) < 2 ^ 32
   \<and> (\<exists>v \<in> set [JBool True, JBool False, JBool False, JBool False, JBool False, JBool False,
         JBool False, JBool False, JBool False, JBool False, JBool False, JBool False, JBool False].
         truthy v)
   \<and> (\<exists>v \<in> set (strings default_settings). truthy v)
   \<and> pos_fret (currentPosition (newPosition (1 / 2) (3 / 4)
        ((initial_state (storage_of []))
           \<lparr>settings := default_settings
              \<lparr>frets := [JBool True, JBool False, JBool False, JBool False, JBool False,
                  JBool False, JBool False, JBool False, JBool False, JBool False, JBool False,
                  JBool False, JBool False]\<rparr>\<rparr>))) = Some 0"
proof -
  let ?fr = "[JBool True, JBool False, JBool False, JBool False, JBool False, JBool False,
         JBool False, JBool False, JBool False, JBool False, JBool False, JBool False, JBool False]"
  let ?st = "(initial_state (storage_of []))\<lparr>settings := default_settings\<lparr>frets := ?fr\<rparr>\<rparr>"
  have fr: "frets (settings ?st) = ?fr" and sr: "strings (settings ?st) = strings default_settings"
    by simp_all
  have a: "\<exists>v \<in> set (frets (settings ?st)). truthy v" unfolding fr by simp
  have b: "\<exists>v \<in> set (strings (settings ?st)). truthy v"
    unfolding sr by (simp add: default_settings_def)
  have l: "length (frets (settings ?st)) < 2 ^ 32" "length (strings (settings ?st)) < 2 ^ 32"
    unfolding fr sr by (simp_all add: default_settings_def)
  have only: "\<forall>i < length (frets (settings ?st)). truthy (frets (settings ?st) ! i) \<longrightarrow> i = 0"
    unfolding fr by (auto simp: nth_Cons' split: if_splits)
  have d: "nonneg_double (1 / 2)" "nonneg_double (3 / 4)"
    using nonneg_double_dyadic [of 1 1] nonneg_double_dyadic [of 3 2]
    by (simp_all add: unit_exp_def)
  have r: "(1::real) / 2 < 1" "(3::real) / 4 < 1" by simp_all
  from newPosition_draws_enabled [OF d(1) r(1) d(2) r(2) l a b] only
  have "pos_fret (currentPosition (newPosition (1 / 2) (3 / 4) ?st)) = Some 0"
    by auto
  with a b l d r show ?thesis unfolding fr sr by blast
qed

text \<open>
  C1, as the script has it. \<^verbatim>\<open>newPosition\<close> has no failure path: for every settings
  record, also one with no enabled fret or no enabled string, it runs to its end and
  starts a round (\<open>hasAnswered\<close> is false). With no enabled fret the fret of the new
  position is \<^verbatim>\<open>undefined\<close>, with no enabled string its string is, and in both cases
  so is the correct answer.
\<close>

theorem newPosition_never_fails:
  "\<exists>st'. handle (NextClick rs rf) st = Some st' \<and> \<not> hasAnswered st'
     \<and> ((\<forall>v \<in> set (frets (settings st)). \<not> truthy v) \<longrightarrow>
           pos_fret (currentPosition st') = None \<and> correctNote st' = None)
     \<and> ((\<forall>v \<in> set (strings (settings st)). \<not> truthy v) \<longrightarrow>
           pos_string (currentPosition st') = None \<and> correctNote st' = None)"
proof -
  let ?st' = "newPosition rs rf st"
  have "pos_fret (currentPosition ?st') = None \<and> correctNote ?st' = None"
    if "\<forall>v \<in> set (frets (settings st)). \<not> truthy v"
  proof -
    from that have "valid_indices (frets (settings st)) = []"
      by (simp add: valid_indices_empty_iff)
    then have "pos_fret (currentPosition ?st') = None"
      by (simp add: newPosition_position random_pick_empty)
    then show ?thesis
      by (simp add: newPosition_answer getNoteAtPosition_def getNoteDisplayName_def
          split: option.splits)
  qed
  moreover have "pos_string (currentPosition ?st') = None \<and> correctNote ?st' = None"
    if "\<forall>v \<in> set (strings (settings st)). \<not> truthy v"
  proof -
    from that have "valid_indices (strings (settings st)) = []"
      by (simp add: valid_indices_empty_iff)
    then have "pos_string (currentPosition ?st') = None"
      by (simp add: newPosition_position random_pick_empty)
    then show ?thesis
      by (simp add: newPosition_answer getNoteAtPosition_def getNoteDisplayName_def)
  qed
  moreover have "handle (NextClick rs rf) st = Some ?st'" by simp
  ultimately show ?thesis using newPosition_unanswered [of rs rf st] by blast
qed

theorem newPosition_never_fails_witness:
  "\<not> (\<exists>v \<in> set (frets (settings ((initial_state (storage_of []))
        \<lparr>settings := default_settings
           \<lparr>frets := [JBool False, JBool False, JBool False, JBool False, JBool False,
               JBool False, JBool False, JBool False, JBool False, JBool False, JBool False,
               JBool False, JBool False]\<rparr>\<rparr>))). truthy v)
   \<and> (\<exists>st'. handle (NextClick (1 / 2) (1 / 2)) ((initial_state (storage_of []))
        \<lparr>settings := default_settings
           \<lparr>frets := [JBool False, JBool False, JBool False, JBool False, JBool False,
               JBool False, JBool False, JBool False, JBool False, JBool False, JBool False,
               JBool False, JBool False]\<rparr>\<rparr>) = Some st'
        \<and> \<not> hasAnswered st' \<and> pos_fret (currentPosition st') = None \<and> correctNote st' = None)"
proof -
  let ?st = "(initial_state (storage_of []))
        \<lparr>settings := default_settings
           \<lparr>frets := [JBool False, JBool False, JBool False, JBool False, JBool False,
               JBool False, JBool False, JBool False, JBool False, JBool False, JBool False,
               JBool False, JBool False]\<rparr>\<rparr>"
  have none: "\<forall>v \<in> set (frets (settings ?st)). \<not> truthy v" by simp
  from newPosition_never_fails [of "1 / 2" "1 / 2" ?st] none
  have "\<exists>st'. handle (NextClick (1 / 2) (1 / 2)) ?st = Some st'
        \<and> \<not> hasAnswered st' \<and> pos_fret (currentPosition st') = None \<and> correctNote st' = None"
    by blast
  with none show ?thesis by blast
qed

text \<open>
  C1 as stated fails: after \<^verbatim>\<open>init\<close> has loaded a stored \<open>frets\<close> array of
  thirteen \<^verbatim>\<open>false\<close>, a click on Next does not fail; it leaves the round on string
  0 with no fret and no correct answer.
\<close>

theorem newPosition_without_enabled_fret:
  "handle (NextClick 0 0)
     (init (storage_of [(SETTINGS_KEY, Encodes (JObj
        [(''frets'', JArr [JBool False, JBool False, JBool False, JBool False, JBool False,
            JBool False, JBool False, JBool False, JBool False, JBool False, JBool False,
            JBool False, JBool False])]))]) 0 0)
   = Some ((initial_state (storage_of [(SETTINGS_KEY, Encodes (JObj
        [(''frets'', JArr [JBool False, JBool False, JBool False, JBool False, JBool False,
            JBool False, JBool False, JBool False, JBool False, JBool False, JBool False,
            JBool False, JBool False])]))]))
        \<lparr>settings := default_settings
           \<lparr>frets := [JBool False, JBool False, JBool False, JBool False, JBool False,
               JBool False, JBool False, JBool False, JBool False, JBool False, JBool False,
               JBool False, JBool False]\<rparr>,
         currentPosition := \<lparr>pos_string = Some 0, pos_fret = None\<rparr>,
         correctNote := None\<rparr>)"
  by (simp add: init_def newPosition_def initial_state_def loadSettings_def loadSettings_try_def
      getItem_def storage_of_def take_array_def valid_indices_def default_settings_def
      random_pick_def js_floor_mul_zero js_index_def getNoteAtPosition_def
      getNoteDisplayName_def)

section \<open>Guesses\<close>

text \<open>
  What \<^verbatim>\<open>saveStats\<close> stores is what \<^verbatim>\<open>loadStats\<close> returns next; and the first page
  state, with nothing stored and both draws 0, is a round on the open high E string.
\<close>

lemma loadStats_saveStats:
  "\<not> quota_exceeded ls \<Longrightarrow> loadStats (saveStats ls s) = js_of_stats s"
  by (simp add: saveStats_def setItem_def loadStats_def loadStats_try_def getItem_def
      JSON_stringify_def json_of_stats)

lemma handleGuess_answered: "hasAnswered st \<Longrightarrow> handleGuess g st = Some st"
  by (simp add: handleGuess_def)

lemma handleGuess_unanswered:
  assumes "\<not> hasAnswered st" and "stats_of_js (loadStats (localStorage st)) = Some loaded"
  shows "handleGuess g st =
     Some ((if Some g = correctNote st then setTimeout_800 else (\<lambda>s. s\<lparr>nextBtn_hidden := False\<rparr>))
        (st\<lparr>hasAnswered := True,
            sessionCorrect := (if Some g = correctNote st then sessionCorrect st + 1 else sessionCorrect st),
            sessionTotal := sessionTotal st + 1,
            localStorage := saveStats (localStorage st)
              (recordAttempt loaded (correctNote st) (pos_fret (currentPosition st))
                 (Some g = correctNote st))\<rparr>))"
  using assms by (simp add: handleGuess_def Let_def)

lemma handleGuess_sets_answered: "handleGuess g st = Some st' \<Longrightarrow> hasAnswered st'"
  by (auto simp: handleGuess_def Let_def setTimeout_800_def split: if_splits option.splits)

lemma setTimeout_800_storage: "localStorage (setTimeout_800 st) = localStorage st"
  by (simp add: setTimeout_800_def Let_def)

lemma init_empty:
  "init (storage_of []) 0 0 = (initial_state (storage_of []))\<lparr>correctNote := Some ''E''\<rparr>"
  by (simp add: init_def newPosition_def initial_state_def loadSettings_def loadSettings_try_def
      getItem_def storage_of_def valid_indices_def default_settings_def random_pick_def
      js_floor_mul_zero js_index_def
      getNoteAtPosition_def getNoteDisplayName_def STRING_START_INDICES_def NOTES_def js_rem_def
      displayMap_def)

lemma loadStats_empty: "loadStats (storage_of []) = js_of_stats createEmptyStats"
  by (simp add: loadStats_def loadStats_try_def getItem_def storage_of_def)

lemma init_empty_facts:
  "\<not> hasAnswered (init (storage_of []) 0 0)"
  "correctNote (init (storage_of []) 0 0) = Some ''E''"
  "pos_fret (currentPosition (init (storage_of []) 0 0)) = Some 0"
  "stats_of_js (loadStats (localStorage (init (storage_of []) 0 0))) = Some createEmptyStats"
  "\<not> quota_exceeded (localStorage (init (storage_of []) 0 0))"
  "sessionTotal (init (storage_of []) 0 0) = 0"
  "timer_seq (init (storage_of []) 0 0) = 0"
  "timeouts (init (storage_of []) 0 0) = []"
  unfolding init_empty
  by (simp_all add: initial_state_def loadStats_empty stats_roundtrip)
     (simp add: storage_of_def)

text \<open>
  C2, as the script has it. In a round that is already answered a call of
  \<^verbatim>\<open>handleGuess\<close> returns at once and changes nothing: not the stored statistics, not
  the session counters, nor anything else of the state. Every call that runs to its end
  leaves the round answered, so a second call with no \<^verbatim>\<open>newPosition\<close> in between is
  such a call. What it returns is \<^verbatim>\<open>undefined\<close>, which is what every call returns, the
  call that took the first guess included.
\<close>

theorem second_guess_changes_nothing:
  "(hasAnswered st \<longrightarrow> handleGuess_call g st = Some (JUndefined, st))
   \<and> (handleGuess_call g st = Some (v, st') \<longrightarrow>
        v = JUndefined \<and> hasAnswered st' \<and> handleGuess_call g' st' = Some (JUndefined, st'))"
proof -
  have "v = JUndefined \<and> hasAnswered st' \<and> handleGuess_call g' st' = Some (JUndefined, st')"
    if call: "handleGuess_call g st = Some (v, st')"
  proof -
    from call have v: "v = JUndefined" and "handleGuess g st = Some st'"
      by (auto simp: handleGuess_call_def handleGuess_answered split: if_splits)
    then have "hasAnswered st'" by (simp add: handleGuess_sets_answered)
    with v show ?thesis by (simp add: handleGuess_call_def)
  qed
  then show ?thesis by (simp add: handleGuess_call_def)
qed

theorem second_guess_changes_nothing_witness:
  "\<not> hasAnswered (init (storage_of []) 0 0)
   \<and> (\<exists>st'. handleGuess_call ''E'' (init (storage_of []) 0 0) = Some (JUndefined, st')
         \<and> hasAnswered st' \<and> sessionTotal st' = 1
         \<and> handleGuess_call ''A'' st' = Some (JUndefined, st'))"
proof -
  let ?st = "init (storage_of []) 0 0"
  from handleGuess_unanswered [OF init_empty_facts(1,4), of "''E''"]
  obtain st' where g: "handleGuess ''E'' ?st = Some st'" and t: "sessionTotal st' = 1"
    by (simp add: init_empty_facts setTimeout_800_def Let_def)
  then have c: "handleGuess_call ''E'' ?st = Some (JUndefined, st')"
    by (simp add: handleGuess_call_def init_empty_facts)
  from second_guess_changes_nothing [of ?st "''E''" JUndefined st' "''A''"] c
  have "hasAnswered st' \<and> handleGuess_call ''A'' st' = Some (JUndefined, st')" by simp
  with c t init_empty_facts(1) show ?thesis by blast
qed

text \<open>
  C2 as stated fails: there is no result that marks a guess as coming too late. The call
  that takes the first guess of a round and the call that refuses the second return the
  same value, \<^verbatim>\<open>undefined\<close>.
\<close>

theorem no_already_answered_sentinel:
  "\<not> hasAnswered (init (storage_of []) 0 0)
   \<and> map_option fst (handleGuess_call ''E'' (init (storage_of []) 0 0)) = Some JUndefined
   \<and> map_option (hasAnswered \<circ> snd) (handleGuess_call ''E'' (init (storage_of []) 0 0))
       = Some True
   \<and> map_option fst
        (Option.bind (handleGuess_call ''E'' (init (storage_of []) 0 0))
           (handleGuess_call ''A'' \<circ> snd)) = Some JUndefined"
proof -
  let ?st = "init (storage_of []) 0 0"
  from handleGuess_unanswered [OF init_empty_facts(1,4), of "''E''"]
  obtain st' where g: "handleGuess ''E'' ?st = Some st'" by blast
  then have a: "hasAnswered st'" by (rule handleGuess_sets_answered)
  from g have c: "handleGuess_call ''E'' ?st = Some (JUndefined, st')"
    by (simp add: handleGuess_call_def init_empty_facts)
  from a have "handleGuess_call ''A'' st' = Some (JUndefined, st')"
    by (simp add: handleGuess_call_def)
  with c a init_empty_facts(1) show ?thesis by simp
qed

text \<open>
  C10. A guess in an unanswered round, with statistics in storage that are well shaped
  (or none at all) and a storage that takes the write, stores the loaded object with one
  attempt recorded
  under the round's correct answer: the total of that note's entry grows by one (its
  \<open>correct\<close> counter by one on a correct guess only) and every other note entry is as it
  was; on a wrong guess with a note of the wheel that is in particular the entry of the
  guessed note.
\<close>

theorem handleGuess_counts_correct_note:
  assumes "\<not> hasAnswered st" and "stats_of_js (loadStats (localStorage st)) = Some loaded"
    and "\<not> quota_exceeded (localStorage st)"
  shows "\<exists>st' saved. handleGuess g st = Some st'
     \<and> stats_of_js (loadStats (localStorage st')) = Some saved
     \<and> saved = recordAttempt loaded (correctNote st) (pos_fret (currentPosition st)) (Some g = correctNote st)
     \<and> n_total (entry (noteStats saved) (note_key (correctNote st)))
         = n_total (entry (noteStats loaded) (note_key (correctNote st))) + 1
     \<and> n_correct (entry (noteStats saved) (note_key (correctNote st)))
         = n_correct (entry (noteStats loaded) (note_key (correctNote st)))
           + (if Some g = correctNote st then 1 else 0)
     \<and> (\<forall>k. k \<noteq> note_key (correctNote st) \<longrightarrow> map_of (noteStats saved) k = map_of (noteStats loaded) k)
     \<and> (g \<in> set NOTE_DISPLAY \<and> Some g \<noteq> correctNote st \<longrightarrow>
          map_of (noteStats saved) g = map_of (noteStats loaded) g)"
proof -
  let ?c = "Some g = correctNote st"
  let ?saved = "recordAttempt loaded (correctNote st) (pos_fret (currentPosition st)) ?c"
  let ?key = "note_key (correctNote st)"
  from handleGuess_unanswered [OF assms(1,2), of g]
  obtain st' where g: "handleGuess g st = Some st'"
    and ls: "localStorage st' = saveStats (localStorage st) ?saved"
    by (cases ?c) (simp_all add: setTimeout_800_storage)
  have saved: "stats_of_js (loadStats (localStorage st')) = Some ?saved"
    unfolding ls by (simp add: loadStats_saveStats [OF assms(3)] stats_roundtrip)
  have cnt: "entry (noteStats ?saved) ?key
      = \<lparr>n_correct = n_correct (entry (noteStats loaded) ?key) + (if ?c then 1 else 0),
         n_total = n_total (entry (noteStats loaded) ?key) + 1\<rparr>"
    by (simp add: recordAttempt_def entry_bump)
  have other: "map_of (noteStats ?saved) k = map_of (noteStats loaded) k" if "k \<noteq> ?key" for k
    using that by (simp add: recordAttempt_def map_of_bump_other)
  have guessed: "map_of (noteStats ?saved) g = map_of (noteStats loaded) g"
    if "g \<in> set NOTE_DISPLAY" "Some g \<noteq> correctNote st"
  proof -
    have "g \<noteq> ?key"
    proof (cases "correctNote st")
      case None
      with that(1) show ?thesis by (auto simp: note_key_def NOTE_DISPLAY_def)
    next
      case (Some c)
      with that(2) show ?thesis by (auto simp: note_key_def)
    qed
    then show ?thesis by (rule other)
  qed
  from g saved cnt other guessed show ?thesis by simp
qed

theorem handleGuess_counts_correct_note_witness:
  "\<not> hasAnswered (init (storage_of []) 0 0)
   \<and> stats_of_js (loadStats (localStorage (init (storage_of []) 0 0))) = Some createEmptyStats
   \<and> \<not> quota_exceeded (localStorage (init (storage_of []) 0 0))
   \<and> correctNote (init (storage_of []) 0 0) = Some ''E''
   \<and> (\<exists>st' saved. handleGuess ''A'' (init (storage_of []) 0 0) = Some st'
         \<and> stats_of_js (loadStats (localStorage st')) = Some saved
         \<and> map_of (noteStats saved) ''E'' = Some \<lparr>n_correct = 0, n_total = 1\<rparr>
         \<and> map_of (noteStats saved) ''A'' = Some \<lparr>n_correct = 0, n_total = 0\<rparr>)"
proof -
  let ?st = "init (storage_of []) 0 0"
  from handleGuess_counts_correct_note [OF init_empty_facts(1,4,5), of "''A''"]
  obtain st' saved where g: "handleGuess ''A'' ?st = Some st'"
    and s: "stats_of_js (loadStats (localStorage st')) = Some saved"
    and eq: "saved = recordAttempt createEmptyStats (Some ''E'') (Some 0) False"
    by (auto simp: init_empty_facts)
  have "map_of (noteStats saved) ''E'' = Some \<lparr>n_correct = 0, n_total = 1\<rparr>"
    "map_of (noteStats saved) ''A'' = Some \<lparr>n_correct = 0, n_total = 0\<rparr>"
    unfolding eq
    by (simp_all add: recordAttempt_def bump_def createEmptyStats_def NOTE_DISPLAY_def
        note_key_def zero_counter_def Let_def)
  with g s init_empty_facts show ?thesis by blast
qed

section \<open>Auto-advance\<close>

text \<open>
  The timer invariant holds after \<^verbatim>\<open>init\<close> and every handler keeps it; the handlers
  of the settings and of the reset button touch neither the timer nor \<open>hasAnswered\<close>.
\<close>

lemma newPosition_timers:
  assumes "case autoAdvanceTimeout st of None \<Rightarrow> timeouts st = []
           | Some t \<Rightarrow> 0 < t \<and> (timeouts st = [(t, 800)] \<or> timeouts st = [])"
  shows "timeouts (newPosition rs rf st) = [] \<and> autoAdvanceTimeout (newPosition rs rf st) = None"
  using assms by (auto simp: newPosition_def Let_def clearTimeout_def split: option.splits)

lemma timers_ok_newPosition: "timers_ok st \<Longrightarrow> timers_ok (newPosition rs rf st)"
  using newPosition_timers [of st rs rf]
  by (auto simp: timers_ok_def split: option.splits)

lemma timers_ok_fire:
  assumes "timers_ok st" and "t \<in> fst ` set (timeouts st)"
  shows "timers_ok (newPosition rs rf (st\<lparr>timeouts := clearTimeout t (timeouts st)\<rparr>))"
proof -
  let ?st = "st\<lparr>timeouts := clearTimeout t (timeouts st)\<rparr>"
  from assms have "autoAdvanceTimeout st = Some t \<and> 0 < t \<and> timeouts st = [(t, 800)]"
    by (auto simp: timers_ok_def split: option.splits)
  then have "case autoAdvanceTimeout ?st of None \<Rightarrow> timeouts ?st = []
           | Some t \<Rightarrow> 0 < t \<and> (timeouts ?st = [(t, 800)] \<or> timeouts ?st = [])"
    by (simp add: clearTimeout_def)
  from newPosition_timers [OF this] show ?thesis
    by (simp add: timers_ok_def)
qed

lemma timers_ok_handleGuess:
  assumes "timers_ok st" and "handleGuess note st = Some st'"
  shows "timers_ok st'"
proof (cases "hasAnswered st")
  case True
  with assms show ?thesis by (simp add: handleGuess_def)
next
  case False
  with assms(1) have "autoAdvanceTimeout st = None" "timeouts st = []"
    by (auto simp: timers_ok_def split: option.splits)
  with False assms(2) show ?thesis
    by (auto simp: handleGuess_def Let_def setTimeout_800_def timers_ok_def
        split: option.splits if_splits)
qed

lemma timers_ok_init: "timers_ok (init ls rs rf)"
  unfolding init_def Let_def
  by (rule timers_ok_newPosition) (simp add: timers_ok_def initial_state_def)

lemma timers_ok_frame:
  assumes "autoAdvanceTimeout a = autoAdvanceTimeout b" and "timeouts a = timeouts b"
    and "hasAnswered a = hasAnswered b"
  shows "timers_ok a = timers_ok b"
  using assms by (simp add: timers_ok_def split: option.splits)

lemma with_settings_frame:
  "autoAdvanceTimeout (with_settings s st) = autoAdvanceTimeout st"
  "timeouts (with_settings s st) = timeouts st"
  "hasAnswered (with_settings s st) = hasAnswered st"
  by (simp_all add: with_settings_def)

lemma fret_toggle_frame:
  "autoAdvanceTimeout (fret_toggle_click i st) = autoAdvanceTimeout st"
  "timeouts (fret_toggle_click i st) = timeouts st"
  "hasAnswered (fret_toggle_click i st) = hasAnswered st"
  by (simp_all add: fret_toggle_click_def Let_def split: option.splits)

lemma string_toggle_frame:
  "autoAdvanceTimeout (string_toggle_click i st) = autoAdvanceTimeout st"
  "timeouts (string_toggle_click i st) = timeouts st"
  "hasAnswered (string_toggle_click i st) = hasAnswered st"
  by (simp_all add: string_toggle_click_def Let_def split: option.splits)

lemma resetStats_frame:
  "autoAdvanceTimeout (resetStats_click c st) = autoAdvanceTimeout st"
  "timeouts (resetStats_click c st) = timeouts st"
  "hasAnswered (resetStats_click c st) = hasAnswered st"
  by (simp_all add: resetStats_click_def)

lemma timers_ok_handle:
  assumes "timers_ok st" and "handle e st = Some st'"
  shows "timers_ok st'"
proof (cases e)
  case (WheelGuess g)
  with assms show ?thesis by (simp add: timers_ok_handleGuess)
next
  case (WheelKey g rs rf)
  with assms(2) obtain s1 where s1: "handleGuess g st = Some s1" "st' = advance_key rs rf s1"
    by auto
  from assms(1) s1(1) have "timers_ok s1" by (rule timers_ok_handleGuess)
  with s1(2) show ?thesis by (simp add: advance_key_def timers_ok_newPosition)
next
  case (NextClick rs rf)
  with assms show ?thesis by (auto simp: timers_ok_newPosition)
next
  case (AdvanceKey rs rf)
  with assms show ?thesis by (auto simp: advance_key_def timers_ok_newPosition)
next
  case (TimeoutFires t rs rf)
  with assms(2) have "t \<in> fst ` set (timeouts st)"
    and "st' = newPosition rs rf (st\<lparr>timeouts := clearTimeout t (timeouts st)\<rparr>)"
    by (simp_all split: if_splits)
  with assms(1) show ?thesis by (simp add: timers_ok_fire)
next
  case (ResetStatsClick c)
  with assms(2) have "st' = resetStats_click c st" by simp
  with assms(1) show ?thesis by (simp add: timers_ok_frame [OF resetStats_frame])
next
  case (FretToggle i)
  with assms(2) have "st' = fret_toggle_click i st" by simp
  with assms(1) show ?thesis by (simp add: timers_ok_frame [OF fret_toggle_frame])
next
  case (StringToggle i)
  with assms(2) have "st' = string_toggle_click i st" by simp
  with assms(1) show ?thesis by (simp add: timers_ok_frame [OF string_toggle_frame])
next
  case FretsAll
  with assms(2) have "st' = frets_all_click st" by simp
  with assms(1) show ?thesis
    by (simp add: frets_all_click_def timers_ok_frame [OF with_settings_frame])
next
  case FretsNone
  with assms(2) have "st' = frets_none_click st" by simp
  with assms(1) show ?thesis
    by (simp add: frets_none_click_def timers_ok_frame [OF with_settings_frame])
next
  case StringsAll
  with assms(2) have "st' = strings_all_click st" by simp
  with assms(1) show ?thesis
    by (simp add: strings_all_click_def timers_ok_frame [OF with_settings_frame])
next
  case StringsNone
  with assms(2) have "st' = strings_none_click st" by simp
  with assms(1) show ?thesis
    by (simp add: strings_none_click_def timers_ok_frame [OF with_settings_frame])
next
  case (ResetSettingsClick c)
  with assms(2) have "st' = resetSettings_click c st" by simp
  with assms(1) show ?thesis
    by (simp add: resetSettings_click_def timers_ok_frame [OF with_settings_frame])
qed

lemma reachable_timers_ok: "reachable st \<Longrightarrow> timers_ok st"
  by (induction rule: reachable.induct) (auto simp: timers_ok_init timers_ok_handle)

lemma resetSettings_frame:
  "autoAdvanceTimeout (resetSettings_click c st) = autoAdvanceTimeout st"
  "timeouts (resetSettings_click c st) = timeouts st"
  "hasAnswered (resetSettings_click c st) = hasAnswered st"
  by (simp_all add: resetSettings_click_def with_settings_frame)

lemma waiting_frame:
  assumes "autoAdvanceTimeout a = autoAdvanceTimeout b" and "timeouts a = timeouts b"
    and "hasAnswered a = hasAnswered b"
  shows "waiting a = waiting b"
  using assms by (simp add: waiting_def)

lemma waiting_handle:
  assumes "waiting st" and "handle e st = Some st'" and "\<not> advance_request e"
    and "\<not> wheel_key e"
  shows "waiting st'"
proof (cases e)
  case (WheelGuess g)
  with assms show ?thesis by (simp add: waiting_def handleGuess_answered)
next
  case (WheelKey g rs rf)
  with assms(4) show ?thesis by (simp add: wheel_key_def)
next
  case (NextClick rs rf)
  with assms(3) show ?thesis by (simp add: advance_request_def)
next
  case (AdvanceKey rs rf)
  with assms(3) show ?thesis by (simp add: advance_request_def)
next
  case (TimeoutFires t rs rf)
  with assms(1,2) show ?thesis by (simp add: waiting_def)
next
  case (ResetStatsClick c)
  with assms(2) have "st' = resetStats_click c st" by simp
  with assms(1) show ?thesis by (simp add: waiting_frame [OF resetStats_frame])
next
  case (FretToggle i)
  with assms(2) have "st' = fret_toggle_click i st" by simp
  with assms(1) show ?thesis by (simp add: waiting_frame [OF fret_toggle_frame])
next
  case (StringToggle i)
  with assms(2) have "st' = string_toggle_click i st" by simp
  with assms(1) show ?thesis by (simp add: waiting_frame [OF string_toggle_frame])
next
  case FretsAll
  with assms(2) have "st' = frets_all_click st" by simp
  with assms(1) show ?thesis
    by (simp add: frets_all_click_def waiting_frame [OF with_settings_frame])
next
  case FretsNone
  with assms(2) have "st' = frets_none_click st" by simp
  with assms(1) show ?thesis
    by (simp add: frets_none_click_def waiting_frame [OF with_settings_frame])
next
  case StringsAll
  with assms(2) have "st' = strings_all_click st" by simp
  with assms(1) show ?thesis
    by (simp add: strings_all_click_def waiting_frame [OF with_settings_frame])
next
  case StringsNone
  with assms(2) have "st' = strings_none_click st" by simp
  with assms(1) show ?thesis
    by (simp add: strings_none_click_def waiting_frame [OF with_settings_frame])
next
  case (ResetSettingsClick c)
  with assms(2) have "st' = resetSettings_click c st" by simp
  with assms(1) show ?thesis by (simp add: waiting_frame [OF resetSettings_frame])
qed

lemma waiting_runs:
  "waiting st \<Longrightarrow> runs es st = Some st'
     \<Longrightarrow> \<forall>e \<in> set es. \<not> advance_request e \<and> \<not> wheel_key e \<Longrightarrow> waiting st'"
proof (induction es arbitrary: st)
  case Nil
  then show ?case by simp
next
  case (Cons e es)
  from Cons.prems(2) obtain st1 where st1: "handle e st = Some st1" "runs es st1 = Some st'"
    by (auto split: option.splits)
  from Cons.prems(1) st1(1) Cons.prems(3) have "waiting st1" by (auto intro: waiting_handle)
  from Cons.IH [OF this st1(2)] Cons.prems(3) show ?case by simp
qed

text \<open>
  What the script does keep of the auto-advance policy, in every state the page can reach:
  \<^verbatim>\<open>newPosition\<close> leaves no timeout pending and \<open>autoAdvanceTimeout\<close> null; a correct
  guess that runs to its end leaves exactly one timeout pending, with delay 800, its id
  in \<open>autoAdvanceTimeout\<close>, and \<^verbatim>\<open>newPosition\<close> is what runs when it fires; a wrong guess
  leaves none pending, and the round then stays answered through every run of handlers in
  which no advance is requested and no key is pressed on the wheel.
\<close>

lemma auto_advance_schedule:
  assumes "reachable st"
  shows "(timeouts (newPosition rs rf st) = [] \<and> autoAdvanceTimeout (newPosition rs rf st) = None)
   \<and> (\<not> hasAnswered st \<and> handleGuess g st = Some st' \<and> Some g = correctNote st \<longrightarrow>
        (\<exists>t. 0 < t \<and> autoAdvanceTimeout st' = Some t \<and> timeouts st' = [(t, 800)]
           \<and> handle (TimeoutFires t rs rf) st' = Some (newPosition rs rf (st'\<lparr>timeouts := []\<rparr>))))
   \<and> (\<not> hasAnswered st \<and> handleGuess g st = Some st' \<and> Some g \<noteq> correctNote st \<longrightarrow>
        autoAdvanceTimeout st' = None \<and> timeouts st' = [] \<and> \<not> nextBtn_hidden st' \<and>
        (\<forall>es st''. runs es st' = Some st''
             \<and> (\<forall>e \<in> set es. \<not> advance_request e \<and> \<not> wheel_key e) \<longrightarrow>
           hasAnswered st'' \<and> timeouts st'' = [] \<and> autoAdvanceTimeout st'' = None))"
proof -
  from assms have ok: "timers_ok st" by (rule reachable_timers_ok)
  then have cancel: "timeouts (newPosition rs rf st) = [] \<and> autoAdvanceTimeout (newPosition rs rf st) = None"
    by (intro newPosition_timers) (auto simp: timers_ok_def split: option.splits)
  have idle: "autoAdvanceTimeout st = None \<and> timeouts st = []" if "\<not> hasAnswered st"
    using ok that by (auto simp: timers_ok_def split: option.splits)
  have right: "\<exists>t. 0 < t \<and> autoAdvanceTimeout st' = Some t \<and> timeouts st' = [(t, 800)]
           \<and> handle (TimeoutFires t rs rf) st' = Some (newPosition rs rf (st'\<lparr>timeouts := []\<rparr>))"
    if "\<not> hasAnswered st" "handleGuess g st = Some st'" "Some g = correctNote st"
  proof -
    from that idle [OF that(1)]
    obtain t where t: "0 < t" "autoAdvanceTimeout st' = Some t" "timeouts st' = [(t, 800)]"
      by (auto simp: handleGuess_def Let_def setTimeout_800_def split: option.splits)
    then have "handle (TimeoutFires t rs rf) st' = Some (newPosition rs rf (st'\<lparr>timeouts := []\<rparr>))"
      by (simp add: clearTimeout_def)
    with t show ?thesis by blast
  qed
  have wrong: "waiting st' \<and> \<not> nextBtn_hidden st'"
    if "\<not> hasAnswered st" "handleGuess g st = Some st'" "Some g \<noteq> correctNote st"
    using that idle [OF that(1)]
    by (auto simp: handleGuess_def Let_def waiting_def split: option.splits)
  have stays: "hasAnswered st'' \<and> timeouts st'' = [] \<and> autoAdvanceTimeout st'' = None"
    if "waiting st'" "runs es st' = Some st''"
      "\<forall>e \<in> set es. \<not> advance_request e \<and> \<not> wheel_key e" for es st''
    using waiting_runs [OF that] by (simp add: waiting_def)
  from cancel right wrong stays show ?thesis unfolding waiting_def by blast
qed

text \<open>
  C9. The round does not stay answered after every wrong guess. A wrong guess made with
  Enter or Space on a wheel segment shows the Next button, and the same key press, bubbling
  to the document's key listener, finds the button shown and calls \<^verbatim>\<open>newPosition\<close>: the
  guess is counted and the round is over at once, with no request to advance. The same
  wrong guess made with a click leaves the round answered with the Next button shown.
\<close>

theorem wrong_key_guess_ends_round:
  "map_option hasAnswered (runs [WheelGuess ''A''] (init (storage_of []) 0 0)) = Some True
   \<and> map_option nextBtn_hidden (runs [WheelGuess ''A''] (init (storage_of []) 0 0)) = Some False
   \<and> correctNote (init (storage_of []) 0 0) = Some ''E''
   \<and> \<not> advance_request (WheelKey ''A'' 0 0)
   \<and> map_option sessionTotal (runs [WheelKey ''A'' 0 0] (init (storage_of []) 0 0)) = Some 1
   \<and> map_option sessionCorrect (runs [WheelKey ''A'' 0 0] (init (storage_of []) 0 0)) = Some 0
   \<and> map_option hasAnswered (runs [WheelKey ''A'' 0 0] (init (storage_of []) 0 0)) = Some False
   \<and> map_option nextBtn_hidden (runs [WheelKey ''A'' 0 0] (init (storage_of []) 0 0))
       = Some True"
proof -
  let ?st = "init (storage_of []) 0 0"
  from handleGuess_unanswered [OF init_empty_facts(1,4), of "''A''"]
  obtain s1 where g: "handleGuess ''A'' ?st = Some s1"
    and s1: "hasAnswered s1" "\<not> nextBtn_hidden s1" "sessionTotal s1 = 1" "sessionCorrect s1 = 0"
    by (simp add: init_empty_facts init_empty initial_state_def)
  have adv: "advance_key 0 0 s1 = newPosition 0 0 s1" using s1(2) by (simp add: advance_key_def)
  have np: "\<not> hasAnswered (newPosition 0 0 s1)" "nextBtn_hidden (newPosition 0 0 s1)"
    "sessionTotal (newPosition 0 0 s1) = sessionTotal s1"
    "sessionCorrect (newPosition 0 0 s1) = sessionCorrect s1"
    by (simp_all add: newPosition_def Let_def split: option.splits)
  show ?thesis
    using g s1 np by (simp add: adv init_empty_facts advance_request_def)
qed

section \<open>Resetting the statistics\<close>

text \<open>
  C7, as the script has it. When the dialog is declined nothing changes. When it is
  confirmed, the statistics entry is removed from storage, so that \<^verbatim>\<open>loadStats\<close>
  returns the record of \<^verbatim>\<open>createEmptyStats\<close> again; the settings, in memory and in
  storage, and the round are as they were; and both session counters are set to 0.
\<close>

theorem resetStats_click_effect:
  "resetStats_click False st = st
   \<and> getItem (localStorage (resetStats_click True st)) STORAGE_KEY = None
   \<and> loadStats (localStorage (resetStats_click True st)) = js_of_stats createEmptyStats
   \<and> settings (resetStats_click True st) = settings st
   \<and> getItem (localStorage (resetStats_click True st)) SETTINGS_KEY
       = getItem (localStorage st) SETTINGS_KEY
   \<and> sessionCorrect (resetStats_click True st) = 0
   \<and> sessionTotal (resetStats_click True st) = 0
   \<and> currentPosition (resetStats_click True st) = currentPosition st
   \<and> correctNote (resetStats_click True st) = correctNote st
   \<and> hasAnswered (resetStats_click True st) = hasAnswered st"
  by (simp add: resetStats_click_def removeItem_def getItem_def loadStats_def loadStats_try_def
      STORAGE_KEY_def SETTINGS_KEY_def)

text \<open>
  C7 as stated fails: after one guess the session total is 1, and after the reset that
  follows it is 0.
\<close>

theorem resetStats_click_clears_session:
  "map_option sessionTotal (runs [WheelGuess ''E''] (init (storage_of []) 0 0)) = Some 1
   \<and> map_option sessionTotal
        (runs [WheelGuess ''E'', ResetStatsClick True] (init (storage_of []) 0 0)) = Some 0"
  by (simp add: handleGuess_unanswered [OF init_empty_facts(1,4)] init_empty_facts
      setTimeout_800_def Let_def resetStats_click_def)

section \<open>Loading the statistics\<close>

text \<open>
  C8, as the script has it. \<^verbatim>\<open>loadStats\<close> never throws. It returns the record of
  \<^verbatim>\<open>createEmptyStats\<close> when the key is missing, when the stored text is empty and
  when it does not parse; when the text parses it returns the parsed value as it is, with
  no default put in for a field. The record of \<^verbatim>\<open>createEmptyStats\<close> has the twelve
  display notes and the frets 0 to 12, each at \<open>{correct: 0, total: 0}\<close>, and both
  counters at 0.
\<close>

theorem loadStats_parse_or_default:
  "(getItem ls STORAGE_KEY = None \<or> getItem ls STORAGE_KEY = Some EmptyText
      \<or> getItem ls STORAGE_KEY = Some Malformed \<longrightarrow> loadStats ls = js_of_stats createEmptyStats)
   \<and> (getItem ls STORAGE_KEY = Some (Encodes v) \<longrightarrow> loadStats ls = v)
   \<and> noteStats createEmptyStats = map (\<lambda>n. (n, zero_counter)) NOTE_DISPLAY
   \<and> length NOTE_DISPLAY = 12 \<and> distinct NOTE_DISPLAY
   \<and> fretStats createEmptyStats
       = map (\<lambda>k. (k, zero_counter))
           (map (\<lambda>c. [c]) ''0123456789'' @ [''10'', ''11'', ''12''])
   \<and> zero_counter = \<lparr>n_correct = 0, n_total = 0\<rparr>
   \<and> totalCorrect createEmptyStats = 0 \<and> totalAttempts createEmptyStats = 0
   \<and> stats_of_js (js_of_stats createEmptyStats) = Some createEmptyStats"
proof -
  have "loadStats ls = js_of_stats createEmptyStats"
    if "getItem ls STORAGE_KEY = None \<or> getItem ls STORAGE_KEY = Some EmptyText
      \<or> getItem ls STORAGE_KEY = Some Malformed"
    using that by (auto simp: loadStats_def loadStats_try_def)
  moreover have "loadStats ls = v" if "getItem ls STORAGE_KEY = Some (Encodes v)"
    using that by (simp add: loadStats_def loadStats_try_def)
  moreover have "noteStats createEmptyStats = map (\<lambda>n. (n, zero_counter)) NOTE_DISPLAY"
    "totalCorrect createEmptyStats = 0" "totalAttempts createEmptyStats = 0"
    by (simp_all add: createEmptyStats_def)
  moreover have "length NOTE_DISPLAY = 12" "distinct NOTE_DISPLAY"
    by (simp_all add: NOTE_DISPLAY_def)
  ultimately show ?thesis
    using fret_keys stats_roundtrip [of createEmptyStats] by (simp add: zero_counter_def)
qed

theorem loadStats_parse_or_default_witness:
  "getItem (storage_of [(STORAGE_KEY, Malformed)]) STORAGE_KEY = Some Malformed
   \<and> loadStats (storage_of [(STORAGE_KEY, Malformed)]) = js_of_stats createEmptyStats
   \<and> getItem (storage_of [(STORAGE_KEY, Encodes (JObj [(''totalAttempts'', JNum 3)]))]) STORAGE_KEY
       = Some (Encodes (JObj [(''totalAttempts'', JNum 3)]))
   \<and> loadStats (storage_of [(STORAGE_KEY, Encodes (JObj [(''totalAttempts'', JNum 3)]))])
       = JObj [(''totalAttempts'', JNum 3)]"
proof -
  have a: "getItem (storage_of [(STORAGE_KEY, Malformed)]) STORAGE_KEY = Some Malformed"
    and b: "getItem (storage_of [(STORAGE_KEY, Encodes (JObj [(''totalAttempts'', JNum 3)]))]) STORAGE_KEY
       = Some (Encodes (JObj [(''totalAttempts'', JNum 3)]))"
    by (simp_all add: getItem_def storage_of_def)
  from loadStats_parse_or_default [of "storage_of [(STORAGE_KEY, Malformed)]"] a
  have "loadStats (storage_of [(STORAGE_KEY, Malformed)]) = js_of_stats createEmptyStats" by simp
  moreover from loadStats_parse_or_default
    [of "storage_of [(STORAGE_KEY, Encodes (JObj [(''totalAttempts'', JNum 3)]))]"
        "JObj [(''totalAttempts'', JNum 3)]"] b
  have "loadStats (storage_of [(STORAGE_KEY, Encodes (JObj [(''totalAttempts'', JNum 3)]))])
       = JObj [(''totalAttempts'', JNum 3)]" by simp
  ultimately show ?thesis using a b by simp
qed

text \<open>
  C8 as stated fails: with the text \<^verbatim>\<open>{}\<close> stored, \<^verbatim>\<open>loadStats\<close> returns the
  empty object, which is not a statistics record and is not the default one.
\<close>

theorem loadStats_returns_parsed_value_as_is:
  "loadStats (storage_of [(STORAGE_KEY, Encodes (JObj []))]) = JObj []
   \<and> stats_of_js (JObj []) = None
   \<and> JObj [] \<noteq> js_of_stats createEmptyStats"
  by (simp add: loadStats_def loadStats_try_def getItem_def storage_of_def stats_of_js_def
      js_of_stats_def)

section \<open>The settings invariant\<close>

text \<open>
  Every handler keeps an enabled entry in both arrays, and a click that would disable the
  last enabled entry changes nothing.
\<close>

lemma toggle_rejects_last:
  "truthy (js_read xs i) \<Longrightarrow> length (filter truthy xs) \<le> 1 \<Longrightarrow> toggle xs i = None"
  by (simp add: toggle_def)

lemma toggle_click_rejects_last:
  "truthy (js_read (frets (settings st)) i) \<Longrightarrow> length (filter truthy (frets (settings st))) \<le> 1
     \<Longrightarrow> fret_toggle_click i st = st"
  "truthy (js_read (strings (settings st)) i) \<Longrightarrow> length (filter truthy (strings (settings st))) \<le> 1
     \<Longrightarrow> string_toggle_click i st = st"
  by (simp_all add: fret_toggle_click_def string_toggle_click_def toggle_rejects_last)

lemma two_enabled_other:
  assumes "2 \<le> length (filter P xs)"
  shows "\<exists>j < length xs. j \<noteq> i \<and> P (xs ! j)"
proof (rule ccontr)
  assume "\<not> (\<exists>j < length xs. j \<noteq> i \<and> P (xs ! j))"
  then have "{j. j < length xs \<and> P (xs ! j)} \<subseteq> {i}" by auto
  then have "card {j. j < length xs \<and> P (xs ! j)} \<le> card {i}"
    by (intro card_mono) simp_all
  with assms show False by (simp add: length_filter_conv_card)
qed

lemma toggle_keeps_one_enabled:
  assumes "toggle xs i = Some ys"
  shows "\<exists>v \<in> set ys. truthy v"
proof (cases "truthy (js_read xs i)")
  case False
  with assms have "ys = js_assign xs i (JBool True)"
    by (simp add: toggle_def Let_def)
  then have "JBool True \<in> set ys"
    by (auto simp: js_assign_def set_update_memI)
  then show ?thesis by force
next
  case True
  then have i: "i < length xs" by (auto simp: js_read_def split: if_splits)
  from True assms have two: "2 \<le> length (filter truthy xs)" and ys: "ys = xs[i := JBool False]"
    by (auto simp: toggle_def Let_def js_assign_def i split: if_splits)
  from two_enabled_other [OF two, of i]
  obtain j where j: "j < length xs" "j \<noteq> i" "truthy (xs ! j)" by blast
  then have "ys ! j = xs ! j" "j < length ys" by (simp_all add: ys)
  with j(3) show ?thesis by (metis nth_mem)
qed

lemma toggle_keeps_head:
  assumes "toggle xs i = Some ys" and "xs \<noteq> []" and "hd xs \<noteq> JHole"
  shows "ys \<noteq> [] \<and> hd ys \<noteq> JHole"
  using assms
  by (cases xs; cases i) (auto simp: toggle_def Let_def js_assign_def split: if_splits)

lemma some_enabled_toggle: "some_enabled xs \<Longrightarrow> toggle xs i = Some ys \<Longrightarrow> some_enabled ys"
  using toggle_keeps_one_enabled [of xs i ys] toggle_keeps_head [of xs i ys]
  by (simp add: some_enabled_def)

lemma some_enabled_select_all: "some_enabled xs \<Longrightarrow> some_enabled (select_all xs)"
proof -
  assume a: "some_enabled xs"
  then obtain v where v: "v \<in> set xs" "truthy v" by (auto simp: some_enabled_def)
  then have "v \<noteq> JHole" by (simp add: truthy_not_hole)
  with v(1) have "JBool True \<in> set (select_all xs)" by (force simp: select_all_def)
  moreover from a have "select_all xs \<noteq> [] \<and> hd (select_all xs) \<noteq> JHole"
    by (cases xs) (auto simp: some_enabled_def select_all_def)
  ultimately show ?thesis by (force simp: some_enabled_def)
qed

lemma some_enabled_select_none: "xs \<noteq> [] \<Longrightarrow> hd xs \<noteq> JHole \<Longrightarrow> some_enabled (select_none xs)"
  by (cases xs) (auto simp: some_enabled_def select_none_def)

lemma some_enabled_default:
  "some_enabled (frets default_settings)" "some_enabled (strings default_settings)"
  by (simp_all add: some_enabled_def default_settings_def)

lemma settings_ok_frame: "settings a = settings b \<Longrightarrow> settings_ok a = settings_ok b"
  by (simp add: settings_ok_def)

lemma handleGuess_settings: "handleGuess g st = Some st' \<Longrightarrow> settings st' = settings st"
  by (auto simp: handleGuess_def Let_def setTimeout_800_def split: if_splits option.splits)

lemma handlers_keep_one_enabled:
  assumes "settings_ok st" and "handle e st = Some st'"
  shows "settings_ok st'"
proof (cases e)
  case (WheelGuess g)
  with assms show ?thesis by (simp add: settings_ok_frame [OF handleGuess_settings])
next
  case (WheelKey g rs rf)
  with assms(2) obtain s1 where s1: "handleGuess g st = Some s1" "st' = advance_key rs rf s1"
    by auto
  with handleGuess_settings [OF s1(1)] have "settings st' = settings st"
    by (simp add: advance_key_def newPosition_settings)
  from settings_ok_frame [OF this] assms(1) show ?thesis by simp
next
  case (NextClick rs rf)
  with assms show ?thesis by (auto simp: settings_ok_frame [OF newPosition_settings])
next
  case (AdvanceKey rs rf)
  with assms show ?thesis
    by (auto simp: advance_key_def settings_ok_frame [OF newPosition_settings])
next
  case (TimeoutFires t rs rf)
  with assms show ?thesis
    by (auto simp: settings_ok_def newPosition_settings split: if_splits)
next
  case (ResetStatsClick c)
  with assms show ?thesis by (auto simp: resetStats_click_def settings_ok_def)
next
  case (FretToggle i)
  with assms show ?thesis
    by (auto simp: fret_toggle_click_def settings_ok_def Let_def some_enabled_toggle
        split: option.splits)
next
  case (StringToggle i)
  with assms show ?thesis
    by (auto simp: string_toggle_click_def settings_ok_def Let_def some_enabled_toggle
        split: option.splits)
next
  case FretsAll
  with assms show ?thesis
    by (auto simp: frets_all_click_def with_settings_def settings_ok_def some_enabled_select_all)
next
  case FretsNone
  with assms(2) have eq: "settings st' = (settings st)\<lparr>frets := select_none (frets (settings st))\<rparr>"
    by (auto simp: frets_none_click_def with_settings_def)
  from assms(1) have "some_enabled (select_none (frets (settings st)))"
    by (intro some_enabled_select_none) (simp_all add: settings_ok_def some_enabled_def)
  with assms(1) eq show ?thesis by (simp add: settings_ok_def)
next
  case StringsAll
  with assms show ?thesis
    by (auto simp: strings_all_click_def with_settings_def settings_ok_def some_enabled_select_all)
next
  case StringsNone
  with assms(2) have eq: "settings st' = (settings st)\<lparr>strings := select_none (strings (settings st))\<rparr>"
    by (auto simp: strings_none_click_def with_settings_def)
  from assms(1) have "some_enabled (select_none (strings (settings st)))"
    by (intro some_enabled_select_none) (simp_all add: settings_ok_def some_enabled_def)
  with assms(1) eq show ?thesis by (simp add: settings_ok_def)
next
  case (ResetSettingsClick c)
  with assms show ?thesis
    by (auto simp: resetSettings_click_def with_settings_def settings_ok_def some_enabled_default)
qed

text \<open>
  C4. \<^verbatim>\<open>loadSettings\<close> checks that a stored field is an array of the right length
  and nothing else: with thirteen \<^verbatim>\<open>false\<close> stored under \<open>frets\<close>, the settings
  after \<^verbatim>\<open>init\<close> have no enabled fret.
\<close>

theorem loadSettings_accepts_no_enabled_fret:
  "settings (init (storage_of [(SETTINGS_KEY, Encodes (JObj
       [(''frets'', JArr [JBool False, JBool False, JBool False, JBool False, JBool False,
           JBool False, JBool False, JBool False, JBool False, JBool False, JBool False,
           JBool False, JBool False]),
        (''strings'', JArr [JBool True, JBool True, JBool True, JBool True, JBool True,
           JBool True])]))]) 0 0)
     = \<lparr>frets = [JBool False, JBool False, JBool False, JBool False, JBool False,
           JBool False, JBool False, JBool False, JBool False, JBool False, JBool False,
           JBool False, JBool False],
        strings = [JBool True, JBool True, JBool True, JBool True, JBool True, JBool True]\<rparr>
   \<and> filter truthy [JBool False, JBool False, JBool False, JBool False, JBool False,
           JBool False, JBool False, JBool False, JBool False, JBool False, JBool False,
           JBool False, JBool False] = []"
  by (simp add: init_def newPosition_settings loadSettings_def loadSettings_try_def getItem_def
      storage_of_def take_array_def initial_state_def)

end
